theory Spec2Isabelle
  imports Main "HOL-Library.Multiset"
begin

section \<open>Python values and dictionaries\<close>

text \<open>
  The values that flow through \<^verbatim>\<open>main.py\<close>: \<^verbatim>\<open>None\<close>, integers and strings.
  A dictionary literal is an association list in insertion order; \<^verbatim>\<open>d.get(k, default)\<close>
  returns the default only when the key is missing, never when the key is bound to
  \<^verbatim>\<open>None\<close>.
\<close>

datatype pyval = PyNone | PyInt int | PyStr string

type_synonym pydict = "(string \<times> pyval) list"

definition dict_get :: "pydict \<Rightarrow> string \<Rightarrow> pyval \<Rightarrow> pyval" where
  "dict_get d k dflt = (case map_of d k of None \<Rightarrow> dflt | Some v \<Rightarrow> v)"

text \<open>Truthiness of \<^verbatim>\<open>None\<close> or a dictionary, as tested by \<^verbatim>\<open>if not image_data\<close>
  and \<^verbatim>\<open>if result\<close>: \<^verbatim>\<open>None\<close> and the empty dictionary are falsy.\<close>

definition truthy :: "pydict option \<Rightarrow> bool" where
  "truthy r = (case r of None \<Rightarrow> False | Some d \<Rightarrow> d \<noteq> [])"

section \<open>The page-automation collaborator\<close>

text \<open>
  Selenium is outside the repository. Each call the program makes on it is answered by a
  script: the outcome of the k-th call of a retried operation is a function of k (counted
  from 0). The outcomes are the ones the handlers of \<^verbatim>\<open>main.py\<close> distinguish.
\<close>

datatype chrome_outcome =
    ChromeStarted               \<comment> \<open>\<^verbatim>\<open>webdriver.Chrome(options=options)\<close> returns a driver\<close>
  | ChromeWebDriverException    \<comment> \<open>it raises \<^verbatim>\<open>WebDriverException\<close>\<close>
  | ChromeOtherException        \<comment> \<open>it raises an exception of another class\<close>

datatype get_outcome =
    Loaded                      \<comment> \<open>\<^verbatim>\<open>driver.get(lens_url)\<close> returns\<close>
  | GetTimeout                  \<comment> \<open>\<^verbatim>\<open>TimeoutException\<close>\<close>
  | GetError                    \<comment> \<open>any other exception\<close>

datatype wait_outcome =
    Present                     \<comment> \<open>\<^verbatim>\<open>WebDriverWait(...).until(...)\<close> returns the element\<close>
  | WaitTimeout                 \<comment> \<open>\<^verbatim>\<open>TimeoutException\<close>\<close>
  | WaitOtherException          \<comment> \<open>an exception that is not a \<^verbatim>\<open>TimeoutException\<close>\<close>

datatype click_outcome =
    Clicked                     \<comment> \<open>the button appeared and \<^verbatim>\<open>.click()\<close> returned\<close>
  | ClickError                  \<comment> \<open>the wait or the click raised\<close>

text \<open>
  \<^verbatim>\<open>element.find_element(By.CSS_SELECTOR, sel)\<close>. Selenium returns the matching element
  (an object that is always truthy) or raises \<^verbatim>\<open>NoSuchElementException\<close> when nothing
  matches. \<open>Falsy\<close> is the outcome of a collaborator that returns a falsy value instead;
  it is what the \<^verbatim>\<open>else None\<close> of lines 95 and 96 handles. The same lookup on
  the same element gives the same outcome both times it is made.
\<close>

datatype lookup =
    Element string              \<comment> \<open>found; the string is its \<^verbatim>\<open>.text\<close>\<close>
  | Falsy
  | NoSuchElement

record entry =
  title_lookup :: lookup        \<comment> \<open>\<^verbatim>\<open>find_element(By.CSS_SELECTOR, '.iJmjmd')\<close>\<close>
  source_lookup :: lookup       \<comment> \<open>\<^verbatim>\<open>find_element(By.CSS_SELECTOR, '.ShWW9')\<close>\<close>
  href :: "string option"       \<comment> \<open>\<^verbatim>\<open>get_attribute('href')\<close>, \<^verbatim>\<open>None\<close> without the attribute\<close>

datatype entry_outcome =
    Rendered entry              \<comment> \<open>the wait for \<^verbatim>\<open>li.anSuc a.GZrdsf\<close> returns the element\<close>
  | EntryError                  \<comment> \<open>the wait raised\<close>

text \<open>A driver: one browser session, with what it answers.\<close>

record driver =
  page_get :: "nat \<Rightarrow> get_outcome"
  no_image :: wait_outcome
  button :: "nat \<Rightarrow> click_outcome"
  first_entry :: "nat \<Rightarrow> entry_outcome"

text \<open>The automation backend as one fetch meets it: the outcomes of the successive
  constructor calls, and the session that a successful call opens.\<close>

record backend =
  chrome :: "nat \<Rightarrow> chrome_outcome"
  session :: driver

section \<open>Exceptions and observable events\<close>

datatype exn =
    InitFailed        \<comment> \<open>\<^verbatim>\<open>Exception("Failed to initialize WebDriver after multiple attempts")\<close>\<close>
  | ChromeError       \<comment> \<open>the exception of \<open>ChromeOtherException\<close>\<close>
  | WaitError         \<comment> \<open>the exception of \<open>WaitOtherException\<close>\<close>
  | PoolValueError    \<comment> \<open>\<^verbatim>\<open>ValueError\<close> of \<^verbatim>\<open>ThreadPoolExecutor\<close> for \<^verbatim>\<open>max_workers <= 0\<close>\<close>
  | FileError         \<comment> \<open>\<^verbatim>\<open>OSError\<close> of \<^verbatim>\<open>open\<close>\<close>

datatype call =
    ChromeNew | SetPageLoadTimeout nat | Get string | WaitNoImage | WaitButton
  | WaitEntry | Quit

datatype message =
    InitOk
  | InitAttemptFailed nat
  | Navigated string
  | NavTimeout string nat nat
  | NavError string nat nat
  | NoImageFound
  | ClickedButton
  | ClickFailed nat nat
  | Extracted
  | ExtractFailed nat nat
  | NoData string

datatype event =
    Call call
  | Sleep nat
  | LogInfo message
  | LogError message

section \<open>The steps of one fetch\<close>

subsection \<open>\<^verbatim>\<open>init_driver\<close>\<close>

text \<open>The \<^verbatim>\<open>while attempt < retries\<close> loop, with the events so far as an accumulator.
  Each pass calls the constructor once, so the pass with counter \<open>attempt\<close> is the call
  number \<open>attempt\<close>.\<close>

function init_driver_loop ::
  "backend \<Rightarrow> nat \<Rightarrow> nat \<Rightarrow> event list \<Rightarrow> (exn + driver) \<times> event list" where
  "init_driver_loop b retries attempt tr =
     (if attempt < retries then
        (case chrome b attempt of
           ChromeStarted \<Rightarrow> (Inr (session b), tr @ [Call ChromeNew, LogInfo InitOk])
         | ChromeWebDriverException \<Rightarrow>
             init_driver_loop b retries (attempt + 1)
               (tr @ [Call ChromeNew, LogError (InitAttemptFailed (attempt + 1)), Sleep 2])
         | ChromeOtherException \<Rightarrow> (Inl ChromeError, tr @ [Call ChromeNew]))
      else (Inl InitFailed, tr))"
  by pat_completeness auto
termination
  by (relation "measure (\<lambda>(b, retries, attempt, tr). retries - attempt)") auto

definition init_driver :: "backend \<Rightarrow> nat \<Rightarrow> (exn + driver) \<times> event list" where
  "init_driver b retries = init_driver_loop b retries 0 []"

subsection \<open>\<^verbatim>\<open>navigate_to_lens\<close>\<close>

definition lens_url :: "string \<Rightarrow> string" where
  "lens_url image_url = ''https://lens.google.com/uploadbyurl?url='' @ image_url"

function navigate_loop ::
  "driver \<Rightarrow> string \<Rightarrow> nat \<Rightarrow> nat \<Rightarrow> nat \<Rightarrow> event list \<Rightarrow> bool \<times> event list" where
  "navigate_loop d url timeout retries attempt tr =
     (if attempt < retries then
        (case page_get d attempt of
           Loaded \<Rightarrow>
             (True, tr @ [Call (SetPageLoadTimeout timeout), Call (Get url),
                          LogInfo (Navigated url)])
         | GetTimeout \<Rightarrow>
             navigate_loop d url timeout retries (attempt + 1)
               (tr @ [Call (SetPageLoadTimeout timeout), Call (Get url),
                      LogError (NavTimeout url (attempt + 1) retries), Sleep 2])
         | GetError \<Rightarrow>
             navigate_loop d url timeout retries (attempt + 1)
               (tr @ [Call (SetPageLoadTimeout timeout), Call (Get url),
                      LogError (NavError url (attempt + 1) retries), Sleep 2]))
      else (False, tr))"
  by pat_completeness auto
termination
  by (relation "measure (\<lambda>(d, url, timeout, retries, attempt, tr). retries - attempt)") auto

definition navigate_to_lens ::
  "driver \<Rightarrow> string \<Rightarrow> nat \<Rightarrow> nat \<Rightarrow> bool \<times> event list" where
  "navigate_to_lens d image_url timeout retries =
     navigate_loop d (lens_url image_url) timeout retries 0 []"

subsection \<open>\<^verbatim>\<open>check_no_image_error\<close>\<close>

text \<open>Only \<^verbatim>\<open>TimeoutException\<close> is caught here; any other exception of the wait leaves
  the function. \<^verbatim>\<open>until\<close> returns only truthy values, so the last
  \<^verbatim>\<open>return False\<close> of the source is never reached.\<close>

definition check_no_image_error :: "driver \<Rightarrow> (exn + bool) \<times> event list" where
  "check_no_image_error d =
     (case no_image d of
        Present \<Rightarrow> (Inr True, [Call WaitNoImage, LogError NoImageFound])
      | WaitTimeout \<Rightarrow> (Inr False, [Call WaitNoImage])
      | WaitOtherException \<Rightarrow> (Inl WaitError, [Call WaitNoImage]))"

subsection \<open>\<^verbatim>\<open>wait_and_click_find_image_source\<close>\<close>

function click_loop :: "driver \<Rightarrow> nat \<Rightarrow> nat \<Rightarrow> event list \<Rightarrow> bool \<times> event list" where
  "click_loop d retries attempt tr =
     (if attempt < retries then
        (case button d attempt of
           Clicked \<Rightarrow> (True, tr @ [Call WaitButton, LogInfo ClickedButton])
         | ClickError \<Rightarrow>
             click_loop d retries (attempt + 1)
               (tr @ [Call WaitButton, LogError (ClickFailed (attempt + 1) retries), Sleep 2]))
      else (False, tr))"
  by pat_completeness auto
termination
  by (relation "measure (\<lambda>(d, retries, attempt, tr). retries - attempt)") auto

definition wait_and_click_find_image_source :: "driver \<Rightarrow> nat \<Rightarrow> bool \<times> event list" where
  "wait_and_click_find_image_source d retries = click_loop d retries 0 []"

subsection \<open>\<^verbatim>\<open>extract_first_image_metadata\<close>\<close>

text \<open>\<^verbatim>\<open>element.find_element(sel).text if element.find_element(sel) else None\<close>:
  the text of a found element, \<^verbatim>\<open>None\<close> for a falsy answer, and the exception of the
  lookup otherwise (\<open>None\<close> here).\<close>

definition text_if_found :: "lookup \<Rightarrow> pyval option" where
  "text_if_found l =
     (case l of Element t \<Rightarrow> Some (PyStr t) | Falsy \<Rightarrow> Some PyNone | NoSuchElement \<Rightarrow> None)"

definition get_attribute_href :: "entry \<Rightarrow> pyval" where
  "get_attribute_href e = (case href e of None \<Rightarrow> PyNone | Some h \<Rightarrow> PyStr h)"

text \<open>The body of the \<^verbatim>\<open>try\<close> of one pass: the dictionary it returns, or \<open>None\<close>
  when one of its calls raised.\<close>

definition extract_attempt :: "entry_outcome \<Rightarrow> pydict option" where
  "extract_attempt outcome =
     (case outcome of
        EntryError \<Rightarrow> None
      | Rendered e \<Rightarrow>
          (case text_if_found (title_lookup e) of
             None \<Rightarrow> None
           | Some title \<Rightarrow>
               (case text_if_found (source_lookup e) of
                  None \<Rightarrow> None
                | Some source \<Rightarrow>
                    Some [(''position'', PyInt 1), (''title'', title),
                          (''source'', source), (''link'', get_attribute_href e)])))"

function extract_loop ::
  "driver \<Rightarrow> nat \<Rightarrow> nat \<Rightarrow> event list \<Rightarrow> pydict option \<times> event list" where
  "extract_loop d retries attempt tr =
     (if attempt < retries then
        (case extract_attempt (first_entry d attempt) of
           Some md \<Rightarrow> (Some md, tr @ [Call WaitEntry, LogInfo Extracted])
         | None \<Rightarrow>
             extract_loop d retries (attempt + 1)
               (tr @ [Call WaitEntry, LogError (ExtractFailed (attempt + 1) retries), Sleep 2]))
      else (None, tr))"
  by pat_completeness auto
termination
  by (relation "measure (\<lambda>(d, retries, attempt, tr). retries - attempt)") auto

definition extract_first_image_metadata :: "driver \<Rightarrow> nat \<Rightarrow> pydict option \<times> event list" where
  "extract_first_image_metadata d retries = extract_loop d retries 0 []"

subsection \<open>\<^verbatim>\<open>get_first_image_metadata\<close>\<close>

text \<open>The body of the \<^verbatim>\<open>try\<close>, with the default arguments of the source:
  a page-load timeout of 60 and one attempt for each retried step.\<close>

definition fetch_steps :: "driver \<Rightarrow> string \<Rightarrow> (exn + pydict option) \<times> event list" where
  "fetch_steps d image_url =
     (case navigate_to_lens d image_url 60 1 of
        (False, t1) \<Rightarrow> (Inr None, t1)
      | (True, t1) \<Rightarrow>
          (case check_no_image_error d of
             (Inl e, t2) \<Rightarrow> (Inl e, t1 @ t2)
           | (Inr True, t2) \<Rightarrow> (Inr None, t1 @ t2)
           | (Inr False, t2) \<Rightarrow>
               (case wait_and_click_find_image_source d 1 of
                  (False, t3) \<Rightarrow> (Inr None, t1 @ t2 @ t3)
                | (True, t3) \<Rightarrow>
                    (case extract_first_image_metadata d 1 of
                       (md, t4) \<Rightarrow> (Inr md, t1 @ t2 @ t3 @ t4)))))"

text \<open>\<^verbatim>\<open>init_driver()\<close> is called before the \<^verbatim>\<open>try\<close>, so its exception leaves the
  function with no \<^verbatim>\<open>driver.quit()\<close>; after it, the \<^verbatim>\<open>finally\<close> clause runs
  \<^verbatim>\<open>driver.quit()\<close> whatever the body did. Selenium's \<^verbatim>\<open>quit\<close> swallows the errors of
  closing the browser, so it is a call that returns.\<close>

definition get_first_image_metadata ::
  "backend \<Rightarrow> string \<Rightarrow> (exn + pydict option) \<times> event list" where
  "get_first_image_metadata b image_url =
     (case init_driver b 3 of
        (Inl e, t0) \<Rightarrow> (Inl e, t0)
      | (Inr d, t0) \<Rightarrow>
          (case fetch_steps d image_url of
             (r, t1) \<Rightarrow> (r, t0 @ t1 @ [Call Quit])))"

section \<open>One task of the pool\<close>

text \<open>\<^verbatim>\<open>process_image(image_id, image_url, csv_file_path)\<close>; the path is not used by
  the source and is left out. Identifiers are the keys of a JSON object, so strings.\<close>

definition process_image ::
  "backend \<Rightarrow> string \<Rightarrow> string \<Rightarrow> (exn + pydict option) \<times> event list" where
  "process_image b image_id image_url =
     (case get_first_image_metadata b image_url of
        (Inl e, tr) \<Rightarrow> (Inl e, tr)
      | (Inr image_data, tr) \<Rightarrow>
          (if \<not> truthy image_data then (Inr None, tr @ [LogError (NoData image_id)])
           else
             (case image_data of
                None \<Rightarrow> (Inr None, tr @ [LogError (NoData image_id)])
              | Some md \<Rightarrow>
                  (Inr (Some
                     [(''id'', PyStr image_id),
                      (''url'', PyStr image_url),
                      (''position'', dict_get md ''position'' (PyStr ''N/A'')),
                      (''title'', dict_get md ''title'' (PyStr ''N/A'')),
                      (''source'', dict_get md ''source'' (PyStr ''N/A'')),
                      (''link'', dict_get md ''link'' (PyStr ''N/A''))]), tr))))"

section \<open>The output file\<close>

text \<open>
  A file is the list of the CSV records written to it, each the list of its fields;
  quoting and line terminators belong to the \<^verbatim>\<open>csv\<close> module. The writer renders
  \<^verbatim>\<open>None\<close> as the empty field, a string as itself and an integer by \<^verbatim>\<open>str\<close>.
\<close>

type_synonym csv_file = "string list list"

record filesystem =
  files :: "string \<Rightarrow> csv_file option"
  writable :: "string \<Rightarrow> bool"      \<comment> \<open>whether \<^verbatim>\<open>open\<close> for writing succeeds on the path\<close>

fun str_nat :: "nat \<Rightarrow> string" where
  "str_nat n =
     (if n < 10 then [''0123456789'' ! n]
      else str_nat (n div 10) @ [''0123456789'' ! (n mod 10)])"

definition str_int :: "int \<Rightarrow> string" where
  "str_int i = (if i < 0 then ''-'' @ str_nat (nat (- i)) else str_nat (nat i))"

definition csv_field :: "pyval \<Rightarrow> string" where
  "csv_field v = (case v of PyNone \<Rightarrow> [] | PyStr s \<Rightarrow> s | PyInt i \<Rightarrow> str_int i)"

definition fieldnames :: "string list" where
  "fieldnames = [''id'', ''url'', ''position'', ''title'', ''source'', ''link'']"

text \<open>\<^verbatim>\<open>DictWriter\<close> takes the fields of a row in the order of \<^verbatim>\<open>fieldnames\<close>,
  with \<^verbatim>\<open>restval\<close> (the empty string) for a key the row lacks.\<close>

definition csv_row :: "pydict \<Rightarrow> string list" where
  "csv_row row = map (\<lambda>k. csv_field (dict_get row k (PyStr []))) fieldnames"

text \<open>\<^verbatim>\<open>open(path, mode='w')\<close> followed by \<^verbatim>\<open>writeheader()\<close>.\<close>

definition write_header :: "string \<Rightarrow> filesystem \<Rightarrow> exn + filesystem" where
  "write_header path fs =
     (if writable fs path then Inr (fs\<lparr>files := (files fs)(path \<mapsto> [fieldnames])\<rparr>)
      else Inl FileError)"

text \<open>\<^verbatim>\<open>open(path, mode='a')\<close> followed by \<^verbatim>\<open>writerows(all_data)\<close>; appending
  creates a file that does not exist.\<close>

definition append_rows :: "string \<Rightarrow> pydict list \<Rightarrow> filesystem \<Rightarrow> exn + filesystem" where
  "append_rows path all_data fs =
     (if writable fs path then
        Inr (fs\<lparr>files := (files fs)
               (path \<mapsto> (case files fs path of None \<Rightarrow> [] | Some c \<Rightarrow> c) @ map csv_row all_data)\<rparr>)
      else Inl FileError)"

section \<open>The coordinator\<close>

text \<open>The \<^verbatim>\<open>for future in as_completed(futures)\<close> loop over the results of the
  futures in completion order: \<^verbatim>\<open>future.result()\<close> re-raises the exception of its
  task, which ends the loop; a falsy result is skipped.\<close>

fun collect :: "(exn + pydict option) list \<Rightarrow> pydict list \<Rightarrow> exn + pydict list" where
  "collect [] all_data = Inr all_data"
| "collect (Inl e # rest) all_data = Inl e"
| "collect (Inr result # rest) all_data =
     (if truthy result then
        (case result of None \<Rightarrow> collect rest all_data
                      | Some row \<Rightarrow> collect rest (all_data @ [row]))
      else collect rest all_data)"

text \<open>
  \<^verbatim>\<open>process_images_concurrently(urls_data, csv_file_path, max_workers)\<close>.

  \<^item> \<open>env image_id image_url\<close> is the backend that the task of that item meets. The tasks
    share no state: each opens its own session, and its result depends on nothing but
    its arguments and that backend.
  \<^item> \<open>as_completed\<close> is the order in which the pool completes the futures it was given;
    the pool size and the timing of the tasks act on the run through it only.
  \<^item> \<open>urls_data\<close> is the dictionary as the list of its items, in insertion order.
  \<^item> \<^verbatim>\<open>ThreadPoolExecutor\<close> raises \<^verbatim>\<open>ValueError\<close> for a pool size below 1.
  \<^item> An exception that leaves the \<^verbatim>\<open>with\<close> block skips the write of lines 162 to 165.

  The source returns \<^verbatim>\<open>None\<close>; the model returns \<^verbatim>\<open>all_data\<close> beside the file
  system, so that theorems can speak of it.
\<close>

definition process_images_concurrently ::
  "(string \<Rightarrow> string \<Rightarrow> backend) \<Rightarrow>
   ((exn + pydict option) list \<Rightarrow> (exn + pydict option) list) \<Rightarrow>
   (string \<times> string) list \<Rightarrow> string \<Rightarrow> int \<Rightarrow> filesystem \<Rightarrow>
   (exn + pydict list) \<times> filesystem" where
  "process_images_concurrently env as_completed urls_data csv_file_path max_workers fs =
     (if max_workers \<le> 0 then (Inl PoolValueError, fs)
      else
        (let futures =
               map (\<lambda>(image_id, image_url).
                      fst (process_image (env image_id image_url) image_id image_url))
                   urls_data
         in case collect (as_completed futures) [] of
              Inl e \<Rightarrow> (Inl e, fs)
            | Inr all_data \<Rightarrow>
                (case append_rows csv_file_path all_data fs of
                   Inl e \<Rightarrow> (Inl e, fs)
                 | Inr fs' \<Rightarrow> (Inr all_data, fs'))))"

text \<open>\<^verbatim>\<open>main\<close>, after the arguments are parsed and the JSON file is loaded.\<close>

definition main ::
  "(string \<Rightarrow> string \<Rightarrow> backend) \<Rightarrow>
   ((exn + pydict option) list \<Rightarrow> (exn + pydict option) list) \<Rightarrow>
   (string \<times> string) list \<Rightarrow> string \<Rightarrow> int \<Rightarrow> filesystem \<Rightarrow>
   (exn + pydict list) \<times> filesystem" where
  "main env as_completed urls_data csv_file_path max_workers fs =
     (case write_header csv_file_path fs of
        Inl e \<Rightarrow> (Inl e, fs)
      | Inr fs1 \<Rightarrow>
          process_images_concurrently env as_completed urls_data csv_file_path max_workers fs1)"

section \<open>Vocabulary of the properties\<close>

text \<open>What a future holds once its task is done: a row was returned (a truthy result),
  and which row.\<close>

definition succeeded :: "exn + pydict option \<Rightarrow> bool" where
  "succeeded x = (case x of Inl e \<Rightarrow> False | Inr r \<Rightarrow> truthy r)"

definition row_of :: "exn + pydict option \<Rightarrow> pydict" where
  "row_of x = (case x of Inr (Some row) \<Rightarrow> row | _ \<Rightarrow> [])"

text \<open>The future of an item: the outcome of its call of \<^verbatim>\<open>process_image\<close>.\<close>

definition future_of :: "(string \<Rightarrow> string \<Rightarrow> backend) \<Rightarrow> string \<times> string \<Rightarrow> exn + pydict option" where
  "future_of env item = fst (process_image (env (fst item) (snd item)) (fst item) (snd item))"

text \<open>The fetch of an item returned a metadata record, or returned absent.\<close>

definition fetch_of :: "(string \<Rightarrow> string \<Rightarrow> backend) \<Rightarrow> string \<times> string \<Rightarrow> exn + pydict option" where
  "fetch_of env item = fst (get_first_image_metadata (env (fst item) (snd item)) (snd item))"

definition returned_metadata :: "exn + pydict option \<Rightarrow> bool" where
  "returned_metadata x = (case x of Inr (Some md) \<Rightarrow> True | _ \<Rightarrow> False)"

definition returned_absent :: "exn + pydict option \<Rightarrow> bool" where
  "returned_absent x = (case x of Inr None \<Rightarrow> True | _ \<Rightarrow> False)"

text \<open>The records of a file, none for a file that does not exist.\<close>

definition rows_in :: "filesystem \<Rightarrow> string \<Rightarrow> csv_file" where
  "rows_in fs path = (case files fs path of None \<Rightarrow> [] | Some c \<Rightarrow> c)"

text \<open>A value of an optional metadata field: \<^verbatim>\<open>None\<close> or a string.\<close>

definition none_or_str :: "pyval \<Rightarrow> bool" where
  "none_or_str v = (case v of PyNone \<Rightarrow> True | PyStr s \<Rightarrow> True | PyInt i \<Rightarrow> False)"

text \<open>The events of one failed pass of the loop of \<^verbatim>\<open>init_driver\<close>: the constructor
  call, the error line with the number of the attempt, and \<^verbatim>\<open>time.sleep(2)\<close>.\<close>

definition failed_init_attempt :: "nat \<Rightarrow> event list" where
  "failed_init_attempt k = [Call ChromeNew, LogError (InitAttemptFailed (k + 1)), Sleep 2]"

section \<open>Example collaborators\<close>

text \<open>A page with a full first result, the page of an image that has no match, a first
  result whose anchor has no \<^verbatim>\<open>href\<close>, and one without the title element.\<close>

definition match_page :: driver where
  "match_page =
     \<lparr>page_get = (\<lambda>k. Loaded), no_image = WaitTimeout, button = (\<lambda>k. Clicked),
      first_entry = (\<lambda>k. Rendered \<lparr>title_lookup = Element ''A cat'',
                                     source_lookup = Element ''example.org'',
                                     href = Some ''http://example.org/cat''\<rparr>)\<rparr>"

definition no_match_page :: driver where
  "no_match_page = match_page\<lparr>no_image := Present\<rparr>"

definition no_href_page :: driver where
  "no_href_page =
     match_page\<lparr>first_entry := (\<lambda>k. Rendered \<lparr>title_lookup = Element ''A cat'',
                                                source_lookup = Element ''example.org'',
                                                href = None\<rparr>)\<rparr>"

definition no_title_page :: driver where
  "no_title_page =
     match_page\<lparr>first_entry := (\<lambda>k. Rendered \<lparr>title_lookup = NoSuchElement,
                                                source_lookup = Element ''example.org'',
                                                href = Some ''http://example.org/cat''\<rparr>)\<rparr>"

text \<open>A page on which the wait for the no-match message raises an exception that is not a
  timeout (the browser went away while the wait polled), and a page whose load raises
  an exception that is not a timeout.\<close>

definition crash_page :: driver where
  "crash_page = match_page\<lparr>no_image := WaitOtherException\<rparr>"

definition nav_error_page :: driver where
  "nav_error_page = match_page\<lparr>page_get := (\<lambda>k. GetError)\<rparr>"

text \<open>A backend whose first constructor call succeeds, one that starts at the third
  call, and one that never starts.\<close>

definition started :: "driver \<Rightarrow> backend" where
  "started d = \<lparr>chrome = (\<lambda>k. ChromeStarted), session = d\<rparr>"

definition started_late :: "driver \<Rightarrow> backend" where
  "started_late d =
     \<lparr>chrome = (\<lambda>k. if k < 2 then ChromeWebDriverException else ChromeStarted), session = d\<rparr>"

definition never_started :: backend where
  "never_started = \<lparr>chrome = (\<lambda>k. ChromeWebDriverException), session = match_page\<rparr>"

text \<open>The input of the scenario of the specification, and a collaborator that finds a
  match for the first URL and none for the second.\<close>

definition two_items :: "(string \<times> string) list" where
  "two_items = [(''a'', ''http://x/1.png''), (''b'', ''http://x/2.png'')]"

definition match_first_only :: "string \<Rightarrow> string \<Rightarrow> backend" where
  "match_first_only image_id image_url =
     (if image_url = ''http://x/1.png'' then started match_page else started no_match_page)"

text \<open>A collaborator whose backend never starts for the second URL.\<close>

definition second_never_starts :: "string \<Rightarrow> string \<Rightarrow> backend" where
  "second_never_starts image_id image_url =
     (if image_url = ''http://x/2.png'' then never_started else started match_page)"

text \<open>Collaborators that find a match for the first URL and, for the second, meet the
  page whose no-match wait raises, or the page that does not load.\<close>

definition crash_second :: "string \<Rightarrow> string \<Rightarrow> backend" where
  "crash_second image_id image_url =
     (if image_url = ''http://x/2.png'' then started crash_page else started match_page)"

definition nav_error_second :: "string \<Rightarrow> string \<Rightarrow> backend" where
  "nav_error_second image_id image_url =
     (if image_url = ''http://x/2.png'' then started nav_error_page else started match_page)"

definition empty_fs :: filesystem where
  "empty_fs = \<lparr>files = (\<lambda>p. None), writable = (\<lambda>p. True)\<rparr>"

text \<open>A file system in which every path holds an old record.\<close>

definition stale_fs :: filesystem where
  "stale_fs = \<lparr>files = (\<lambda>p. Some [[''stale'']]), writable = (\<lambda>p. True)\<rparr>"

section \<open>Unfolding the loops\<close>

declare init_driver_loop.simps [simp del] navigate_loop.simps [simp del]
  click_loop.simps [simp del] extract_loop.simps [simp del] str_nat.simps [simp del]


lemma init_driver_loop_done:
  "retries \<le> attempt \<Longrightarrow> init_driver_loop b retries attempt tr = (Inl InitFailed, tr)"
  by (simp add: init_driver_loop.simps)

lemma init_driver_loop_step:
  "attempt < retries \<Longrightarrow>
   init_driver_loop b retries attempt tr =
     (case chrome b attempt of
        ChromeStarted \<Rightarrow> (Inr (session b), tr @ [Call ChromeNew, LogInfo InitOk])
      | ChromeWebDriverException \<Rightarrow>
          init_driver_loop b retries (attempt + 1)
            (tr @ [Call ChromeNew, LogError (InitAttemptFailed (attempt + 1)), Sleep 2])
      | ChromeOtherException \<Rightarrow> (Inl ChromeError, tr @ [Call ChromeNew]))"
  by (subst init_driver_loop.simps) simp

lemma navigate_loop_done:
  "retries \<le> attempt \<Longrightarrow> navigate_loop d u t retries attempt tr = (False, tr)"
  by (simp add: navigate_loop.simps)

lemma click_loop_done:
  "retries \<le> attempt \<Longrightarrow> click_loop d retries attempt tr = (False, tr)"
  by (simp add: click_loop.simps)

lemma extract_loop_done:
  "retries \<le> attempt \<Longrightarrow> extract_loop d retries attempt tr = (None, tr)"
  by (simp add: extract_loop.simps)

text \<open>With one attempt, each retried step is a case distinction on the answer to its
  only call.\<close>

lemma navigate_once:
  "navigate_to_lens d u t 1 =
     (case page_get d 0 of
        Loaded \<Rightarrow>
          (True, [Call (SetPageLoadTimeout t), Call (Get (lens_url u)),
                  LogInfo (Navigated (lens_url u))])
      | GetTimeout \<Rightarrow>
          (False, [Call (SetPageLoadTimeout t), Call (Get (lens_url u)),
                   LogError (NavTimeout (lens_url u) 1 1), Sleep 2])
      | GetError \<Rightarrow>
          (False, [Call (SetPageLoadTimeout t), Call (Get (lens_url u)),
                   LogError (NavError (lens_url u) 1 1), Sleep 2]))"
  unfolding navigate_to_lens_def
  by (subst navigate_loop.simps) (simp add: navigate_loop_done split: get_outcome.split)

lemma click_once:
  "wait_and_click_find_image_source d 1 =
     (case button d 0 of
        Clicked \<Rightarrow> (True, [Call WaitButton, LogInfo ClickedButton])
      | ClickError \<Rightarrow> (False, [Call WaitButton, LogError (ClickFailed 1 1), Sleep 2]))"
  unfolding wait_and_click_find_image_source_def
  by (subst click_loop.simps) (simp add: click_loop_done split: click_outcome.split)

lemma extract_once:
  "extract_first_image_metadata d 1 =
     (case extract_attempt (first_entry d 0) of
        Some md \<Rightarrow> (Some md, [Call WaitEntry, LogInfo Extracted])
      | None \<Rightarrow> (None, [Call WaitEntry, LogError (ExtractFailed 1 1), Sleep 2]))"
  unfolding extract_first_image_metadata_def
  by (subst extract_loop.simps) (simp add: extract_loop_done split: option.split)

text \<open>With three attempts, \<^verbatim>\<open>init_driver\<close> is decided by the first three answers of
  the constructor.\<close>

lemma init_three:
  "init_driver b 3 =
     (case chrome b 0 of
        ChromeStarted \<Rightarrow> (Inr (session b), [Call ChromeNew, LogInfo InitOk])
      | ChromeOtherException \<Rightarrow> (Inl ChromeError, [Call ChromeNew])
      | ChromeWebDriverException \<Rightarrow>
          (case chrome b 1 of
             ChromeStarted \<Rightarrow>
               (Inr (session b), failed_init_attempt 0 @ [Call ChromeNew, LogInfo InitOk])
           | ChromeOtherException \<Rightarrow> (Inl ChromeError, failed_init_attempt 0 @ [Call ChromeNew])
           | ChromeWebDriverException \<Rightarrow>
               (case chrome b 2 of
                  ChromeStarted \<Rightarrow>
                    (Inr (session b),
                     failed_init_attempt 0 @ failed_init_attempt 1 @
                     [Call ChromeNew, LogInfo InitOk])
                | ChromeOtherException \<Rightarrow>
                    (Inl ChromeError,
                     failed_init_attempt 0 @ failed_init_attempt 1 @ [Call ChromeNew])
                | ChromeWebDriverException \<Rightarrow>
                    (Inl InitFailed,
                     failed_init_attempt 0 @ failed_init_attempt 1 @ failed_init_attempt 2))))"
  unfolding init_driver_def failed_init_attempt_def
  by (simp add: init_driver_loop_step init_driver_loop_done numeral_2_eq_2 numeral_3_eq_3
      split: chrome_outcome.split)

lemma init_driver_session: "fst (init_driver b 3) = Inr d \<Longrightarrow> d = session b"
  by (simp add: init_three split: chrome_outcome.splits)

section \<open>The session is released\<close>

lemma init_trace_no_quit: "Call Quit \<notin> set (snd (init_driver b 3))"
  by (simp add: init_three failed_init_attempt_def split: chrome_outcome.split)

lemma fetch_steps_no_quit: "Call Quit \<notin> set (snd (fetch_steps d u))"
  unfolding fetch_steps_def navigate_once check_no_image_error_def click_once extract_once
  by (simp split: get_outcome.split wait_outcome.split click_outcome.split option.split)

text \<open>
  C7. Whenever \<^verbatim>\<open>init_driver\<close> hands a session to the fetch, the events of the fetch
  end with \<^verbatim>\<open>driver.quit()\<close>, called once: whatever the session answers, so on success,
  on each of the four step failures, and when the no-match wait raises an exception that
  nothing catches.
\<close>

theorem session_closed_on_every_path:
  assumes "fst (init_driver b 3) = Inr d"
  shows "\<exists>pre. snd (get_first_image_metadata b image_url) = pre @ [Call Quit]
           \<and> Call Quit \<notin> set pre"
proof -
  obtain t0 where i: "init_driver b 3 = (Inr d, t0)"
    using assms by (cases "init_driver b 3") simp
  obtain r t1 where f: "fetch_steps d image_url = (r, t1)"
    by (cases "fetch_steps d image_url")
  have "snd (get_first_image_metadata b image_url) = (t0 @ t1) @ [Call Quit]"
    by (simp add: get_first_image_metadata_def i f)
  moreover have "Call Quit \<notin> set t0"
    using init_trace_no_quit [of b] i by simp
  moreover have "Call Quit \<notin> set t1"
    using fetch_steps_no_quit [of d image_url] f by simp
  ultimately show ?thesis by auto
qed

theorem session_closed_on_every_path_witness:
  "fst (init_driver (started_late no_match_page) 3) = Inr no_match_page \<and>
   (\<exists>pre. snd (get_first_image_metadata (started_late no_match_page) ''http://x/2.png'')
            = pre @ [Call Quit] \<and> Call Quit \<notin> set pre)"
proof -
  have h: "fst (init_driver (started_late no_match_page) 3) = Inr no_match_page"
    by (simp add: init_three started_late_def)
  show ?thesis
    using h session_closed_on_every_path [OF h, of "''http://x/2.png''"] by simp
qed

section \<open>What a fetch returns\<close>


lemma extract_attempt_shape:
  assumes "extract_attempt oc = Some md"
  shows "\<exists>title source link.
           md = [(''position'', PyInt 1), (''title'', title), (''source'', source), (''link'', link)]
           \<and> none_or_str title \<and> none_or_str source \<and> none_or_str link"
  using assms
  by (auto simp: extract_attempt_def text_if_found_def get_attribute_href_def none_or_str_def
      split: entry_outcome.splits option.splits lookup.splits)

lemma fetch_steps_Some:
  assumes "fst (fetch_steps d u) = Inr (Some md)"
  shows "extract_attempt (first_entry d 0) = Some md"
  using assms
  unfolding fetch_steps_def navigate_once check_no_image_error_def click_once extract_once
  by (simp split: get_outcome.splits wait_outcome.splits click_outcome.splits option.splits)

lemma get_first_image_metadata_fst:
  "fst (get_first_image_metadata b u) =
     (case fst (init_driver b 3) of Inl e \<Rightarrow> Inl e | Inr d \<Rightarrow> fst (fetch_steps d u))"
  by (cases "init_driver b 3"; cases "fst (init_driver b 3)")
     (auto simp: get_first_image_metadata_def split: prod.splits)

lemma get_first_image_metadata_Some:
  assumes "fst (get_first_image_metadata b u) = Inr (Some md)"
  shows "extract_attempt (first_entry (session b) 0) = Some md"
proof -
  from assms obtain d where d: "fst (init_driver b 3) = Inr d"
    and f: "fst (fetch_steps d u) = Inr (Some md)"
    by (auto simp: get_first_image_metadata_fst split: sum.splits)
  from d have "d = session b" by (rule init_driver_session)
  with f show ?thesis by (simp add: fetch_steps_Some)
qed

lemma process_image_fst:
  "fst (process_image b i u) =
     (case fst (get_first_image_metadata b u) of
        Inl e \<Rightarrow> Inl e
      | Inr None \<Rightarrow> Inr None
      | Inr (Some md) \<Rightarrow>
          (if md = [] then Inr None
           else Inr (Some
                     [(''id'', PyStr i),
                      (''url'', PyStr u),
                      (''position'', dict_get md ''position'' (PyStr ''N/A'')),
                      (''title'', dict_get md ''title'' (PyStr ''N/A'')),
                      (''source'', dict_get md ''source'' (PyStr ''N/A'')),
                      (''link'', dict_get md ''link'' (PyStr ''N/A''))])))"
  by (cases "get_first_image_metadata b u")
     (auto simp: process_image_def truthy_def split: sum.splits option.splits)

text \<open>
  C10. When the fetch returns a record (not \<^verbatim>\<open>None\<close>), the record binds exactly the
  keys position, title, source and link, in that order, with position the integer 1 and
  each of the other three \<^verbatim>\<open>None\<close> or a string. So \<^verbatim>\<open>.get\<close> finds every key
  whatever default it is given: the defaults \<^verbatim>\<open>'N/A'\<close> of \<^verbatim>\<open>process_image\<close> are never
  taken, and the row carries the values of the record, \<^verbatim>\<open>None\<close> included.
\<close>

theorem fetched_metadata_binds_all_keys:
  assumes "fst (get_first_image_metadata b image_url) = Inr (Some md)"
  shows "\<exists>title source link.
           md = [(''position'', PyInt 1), (''title'', title), (''source'', source), (''link'', link)]
         \<and> none_or_str title \<and> none_or_str source \<and> none_or_str link
         \<and> (\<forall>dflt. dict_get md ''position'' dflt = PyInt 1 \<and> dict_get md ''title'' dflt = title
                \<and> dict_get md ''source'' dflt = source \<and> dict_get md ''link'' dflt = link)
         \<and> fst (process_image b image_id image_url) =
              Inr (Some [(''id'', PyStr image_id), (''url'', PyStr image_url),
                         (''position'', PyInt 1), (''title'', title),
                         (''source'', source), (''link'', link)])"
proof -
  from assms have "extract_attempt (first_entry (session b) 0) = Some md"
    by (rule get_first_image_metadata_Some)
  then obtain title source link where
    md: "md = [(''position'', PyInt 1), (''title'', title), (''source'', source), (''link'', link)]"
    and ns: "none_or_str title" "none_or_str source" "none_or_str link"
    using extract_attempt_shape by blast
  have g: "dict_get md ''position'' dflt = PyInt 1" "dict_get md ''title'' dflt = title"
    "dict_get md ''source'' dflt = source" "dict_get md ''link'' dflt = link" for dflt
    by (simp_all add: md dict_get_def)
  have "fst (process_image b image_id image_url) =
              Inr (Some [(''id'', PyStr image_id), (''url'', PyStr image_url),
                         (''position'', PyInt 1), (''title'', title),
                         (''source'', source), (''link'', link)])"
    unfolding process_image_fst assms by (simp add: g) (simp add: md)
  with md ns g show ?thesis by blast
qed

theorem fetched_metadata_binds_all_keys_witness:
  "fst (get_first_image_metadata (started no_href_page) ''http://x/1.png'') =
     Inr (Some [(''position'', PyInt 1), (''title'', PyStr ''A cat''),
                (''source'', PyStr ''example.org''), (''link'', PyNone)]) \<and>
   fst (process_image (started no_href_page) ''a'' ''http://x/1.png'') =
     Inr (Some [(''id'', PyStr ''a''), (''url'', PyStr ''http://x/1.png''),
                (''position'', PyInt 1), (''title'', PyStr ''A cat''),
                (''source'', PyStr ''example.org''), (''link'', PyNone)])"
proof -
  have h: "fst (get_first_image_metadata (started no_href_page) ''http://x/1.png'') =
     Inr (Some [(''position'', PyInt 1), (''title'', PyStr ''A cat''),
                (''source'', PyStr ''example.org''), (''link'', PyNone)])"
    unfolding get_first_image_metadata_fst init_three fetch_steps_def navigate_once
      check_no_image_error_def click_once extract_once
    by (simp add: started_def no_href_page_def match_page_def extract_attempt_def
        text_if_found_def get_attribute_href_def)
  show ?thesis
    using h fetched_metadata_binds_all_keys [OF h, of "''a''"] by simp
qed

section \<open>The loop over the completed futures\<close>

lemma futures_eq:
  "map (\<lambda>(image_id, image_url). fst (process_image (env image_id image_url) image_id image_url)) urls_data
   = map (future_of env) urls_data"
  by (simp add: future_of_def split_def)

lemma collect_raises:
  "\<exists>x\<in>set xs. isl x \<Longrightarrow> \<exists>e. collect xs acc = Inl e"
proof (induction xs arbitrary: acc)
  case Nil
  then show ?case by simp
next
  case (Cons x xs)
  show ?case
  proof (cases x)
    case (Inl e)
    then show ?thesis by simp
  next
    case (Inr r)
    with Cons.prems have "\<exists>x\<in>set xs. isl x" by auto
    from Cons.IH [OF this] Inr show ?thesis
      by (cases r) (simp_all add: truthy_def)
  qed
qed

lemma collect_returns:
  "\<forall>x\<in>set xs. \<not> isl x \<Longrightarrow> collect xs acc = Inr (acc @ map row_of (filter succeeded xs))"
proof (induction xs arbitrary: acc)
  case Nil
  then show ?case by simp
next
  case (Cons x xs)
  then obtain r where x: "x = Inr r" by (cases x) auto
  from Cons.prems have rest: "\<forall>x\<in>set xs. \<not> isl x" by simp
  show ?case
    using Cons.IH [OF rest] x
    by (cases r) (simp_all add: truthy_def succeeded_def row_of_def)
qed

lemma collect_Inr_iff:
  "collect xs acc = Inr rows \<longleftrightarrow>
     (\<forall>x\<in>set xs. \<not> isl x) \<and> rows = acc @ map row_of (filter succeeded xs)"
proof (cases "\<forall>x\<in>set xs. \<not> isl x")
  case True
  then show ?thesis by (auto simp: collect_returns)
next
  case False
  then have "\<exists>x\<in>set xs. isl x" by simp
  from collect_raises [OF this, of acc] False show ?thesis by auto
qed

lemma pic_unfold:
  "process_images_concurrently env ac urls path w fs =
     (if w \<le> 0 then (Inl PoolValueError, fs)
      else case collect (ac (map (future_of env) urls)) [] of
              Inl e \<Rightarrow> (Inl e, fs)
            | Inr all_data \<Rightarrow>
                (case append_rows path all_data fs of
                   Inl e \<Rightarrow> (Inl e, fs)
                 | Inr fs' \<Rightarrow> (Inr all_data, fs')))"
  by (simp add: process_images_concurrently_def futures_eq)

lemma perm_set: "\<forall>xs. mset (ac xs) = mset xs \<Longrightarrow> set (ac xs) = set xs"
  by (metis set_mset_mset)

lemma pic_aborts:
  assumes perm: "\<forall>xs. mset (ac xs) = mset xs"
    and "item \<in> set urls" and "isl (future_of env item)"
  shows "\<exists>e. process_images_concurrently env ac urls path w fs = (Inl e, fs)"
proof -
  have "\<exists>x\<in>set (ac (map (future_of env) urls)). isl x"
    using assms by (auto simp: perm_set)
  from collect_raises [OF this, of "[]"] show ?thesis
    by (auto simp: pic_unfold)
qed

lemma pic_Inr:
  assumes perm: "\<forall>xs. mset (ac xs) = mset xs"
    and run: "fst (process_images_concurrently env ac urls path w fs) = Inr rows"
  shows "0 < w" and "\<forall>item\<in>set urls. \<not> isl (future_of env item)"
    and "rows = map row_of (filter succeeded (ac (map (future_of env) urls)))"
    and "writable fs path"
    and "snd (process_images_concurrently env ac urls path w fs) =
           fs\<lparr>files := (files fs)(path \<mapsto> rows_in fs path @ map csv_row rows)\<rparr>"
proof -
  show w: "0 < w" using run by (cases "w \<le> 0") (simp_all add: pic_unfold)
  obtain all_data where c: "collect (ac (map (future_of env) urls)) [] = Inr all_data"
    using run w by (cases "collect (ac (map (future_of env) urls)) []") (simp_all add: pic_unfold)
  from c have noraise: "\<forall>x\<in>set (ac (map (future_of env) urls)). \<not> isl x"
    and ad: "all_data = map row_of (filter succeeded (ac (map (future_of env) urls)))"
    by (simp_all add: collect_Inr_iff)
  from noraise show "\<forall>item\<in>set urls. \<not> isl (future_of env item)"
    by (simp add: perm_set [OF perm])
  have wr: "writable fs path \<and> rows = all_data"
    using run w c by (cases "writable fs path") (simp_all add: pic_unfold append_rows_def)
  then show "writable fs path" by simp
  from wr ad show "rows = map row_of (filter succeeded (ac (map (future_of env) urls)))"
    by simp
  show "snd (process_images_concurrently env ac urls path w fs) =
           fs\<lparr>files := (files fs)(path \<mapsto> rows_in fs path @ map csv_row rows)\<rparr>"
    using w c wr by (simp add: pic_unfold append_rows_def rows_in_def)
qed

lemma pic_completes:
  assumes perm: "\<forall>xs. mset (ac xs) = mset xs"
    and "0 < w" and "writable fs path"
    and "\<forall>item\<in>set urls. \<not> isl (future_of env item)"
  shows "\<exists>rows. fst (process_images_concurrently env ac urls path w fs) = Inr rows"
proof -
  have "\<forall>x\<in>set (ac (map (future_of env) urls)). \<not> isl x"
    using assms(4) by (simp add: perm_set [OF perm])
  from collect_returns [OF this, of "[]"] assms(2,3) show ?thesis
    by (simp add: pic_unfold append_rows_def)
qed

lemma rows_mset:
  assumes perm: "\<forall>xs. mset (ac xs) = mset xs"
  shows "mset (map row_of (filter succeeded (ac xs))) = mset (map row_of (filter succeeded xs))"
  using perm by simp

lemma fetch_steps_fst:
  "fst (fetch_steps d u) =
     (case page_get d 0 of
        Loaded \<Rightarrow>
          (case no_image d of
             Present \<Rightarrow> Inr None
           | WaitOtherException \<Rightarrow> Inl WaitError
           | WaitTimeout \<Rightarrow>
               (case button d 0 of
                  ClickError \<Rightarrow> Inr None
                | Clicked \<Rightarrow> Inr (extract_attempt (first_entry d 0))))
      | GetTimeout \<Rightarrow> Inr None
      | GetError \<Rightarrow> Inr None)"
  unfolding fetch_steps_def navigate_once check_no_image_error_def click_once extract_once
  by (simp split: get_outcome.split wait_outcome.split click_outcome.split option.split)

lemma main_unfold:
  "main env ac urls path w fs =
     (if writable fs path then
        process_images_concurrently env ac urls path w
          (fs\<lparr>files := (files fs)(path \<mapsto> [fieldnames])\<rparr>)
      else (Inl FileError, fs))"
  by (simp add: main_def write_header_def)

lemma pic_Inl:
  assumes "fst (process_images_concurrently env ac urls path w fs) = Inl e"
  shows "snd (process_images_concurrently env ac urls path w fs) = fs"
  using assms
  by (auto simp: pic_unfold split: if_splits sum.splits)

section \<open>Session acquisition\<close>

lemma upt_0_2: "[0..<2] = [0, 1::nat]"
  by (simp add: numeral_2_eq_2)

lemma upt_0_3: "[0..<3] = [0, 1, 2::nat]"
  by (simp add: numeral_3_eq_3 numeral_2_eq_2)

lemma init_driver_events:
  "\<exists>k rest. snd (init_driver b 3) = concat (map failed_init_attempt [0..<k]) @ rest \<and>
     (rest = [] \<and> k = 3 \<and> fst (init_driver b 3) = Inl InitFailed \<or>
      rest = [Call ChromeNew, LogInfo InitOk] \<and> k < 3 \<and> fst (init_driver b 3) = Inr (session b) \<or>
      rest = [Call ChromeNew] \<and> k < 3 \<and> fst (init_driver b 3) = Inl ChromeError)"
proof (cases "chrome b 0")
  case ChromeStarted
  then show ?thesis
    by (intro exI [of _ 0] exI [of _ "[Call ChromeNew, LogInfo InitOk]"]) (simp add: init_three)
next
  case ChromeOtherException
  then show ?thesis
    by (intro exI [of _ 0] exI [of _ "[Call ChromeNew]"]) (simp add: init_three)
next
  case c0: ChromeWebDriverException
  show ?thesis
  proof (cases "chrome b 1")
    case ChromeStarted
    with c0 show ?thesis
      by (intro exI [of _ 1] exI [of _ "[Call ChromeNew, LogInfo InitOk]"]) (simp add: init_three)
  next
    case ChromeOtherException
    with c0 show ?thesis
      by (intro exI [of _ 1] exI [of _ "[Call ChromeNew]"]) (simp add: init_three)
  next
    case c1: ChromeWebDriverException
    show ?thesis
    proof (cases "chrome b 2")
      case ChromeStarted
      with c0 c1 show ?thesis
        by (intro exI [of _ 2] exI [of _ "[Call ChromeNew, LogInfo InitOk]"])
           (simp add: init_three upt_0_2)
    next
      case ChromeOtherException
      with c0 c1 show ?thesis
        by (intro exI [of _ 2] exI [of _ "[Call ChromeNew]"])
           (simp add: init_three upt_0_2)
    next
      case ChromeWebDriverException
      with c0 c1 show ?thesis
        by (intro exI [of _ 3] exI [of _ "[]"])
           (simp add: init_three upt_0_3)
    qed
  qed
qed

lemma init_driver_loop_calls:
  "count_list (snd (init_driver_loop b retries attempt tr)) (Call ChromeNew)
     \<le> count_list tr (Call ChromeNew) + (retries - attempt)"
proof (induction b retries attempt tr rule: init_driver_loop.induct)
  case (1 b retries attempt tr)
  show ?case
  proof (cases "attempt < retries")
    case False
    then show ?thesis by (simp add: init_driver_loop_done)
  next
    case True
    show ?thesis
    proof (cases "chrome b attempt")
      case ChromeStarted
      with True show ?thesis by (simp add: init_driver_loop_step)
    next
      case ChromeOtherException
      with True show ?thesis by (simp add: init_driver_loop_step)
    next
      case ChromeWebDriverException
      with True "1.IH" [OF True ChromeWebDriverException] show ?thesis
        by (simp add: init_driver_loop_step)
    qed
  qed
qed

lemma init_driver_calls: "count_list (snd (init_driver b retries)) (Call ChromeNew) \<le> retries"
  using init_driver_loop_calls [of b retries 0 "[]"] by (simp add: init_driver_def)

lemma all_fail_init:
  assumes "\<forall>k<3. chrome b k = ChromeWebDriverException"
  shows "init_driver b 3 =
           (Inl InitFailed, failed_init_attempt 0 @ failed_init_attempt 1 @ failed_init_attempt 2)"
proof -
  from assms have "chrome b 0 = ChromeWebDriverException" "chrome b 1 = ChromeWebDriverException"
    "chrome b 2 = ChromeWebDriverException" by simp_all
  then show ?thesis by (simp add: init_three)
qed

text \<open>
  C3. \<^verbatim>\<open>init_driver\<close> calls the constructor at most 3 times. Its events are k failed
  attempts, each the constructor call, the error line and \<^verbatim>\<open>time.sleep(2)\<close>, followed
  by nothing when k = 3 (the exception \<open>InitFailed\<close>), or by one more call that starts the
  session or raises an exception of another class. When the three calls of an item of the
  input all raise \<^verbatim>\<open>WebDriverException\<close>, the exception leaves \<^verbatim>\<open>init_driver\<close>,
  \<^verbatim>\<open>get_first_image_metadata\<close> and \<^verbatim>\<open>process_image\<close>; the coordinator ends with an
  exception and leaves the file system as it was, so the file of the run holds the header
  and no data row.
\<close>

theorem init_driver_three_attempts_then_abort:
  assumes item: "item \<in> set urls_data"
    and fail: "\<forall>k<3. chrome (env (fst item) (snd item)) k = ChromeWebDriverException"
    and perm: "\<forall>xs. mset (as_completed xs) = mset xs"
  shows "count_list (snd (init_driver b 3)) (Call ChromeNew) \<le> 3
    \<and> (\<exists>k rest. snd (init_driver b 3) = concat (map failed_init_attempt [0..<k]) @ rest \<and>
         (rest = [] \<and> k = 3 \<and> fst (init_driver b 3) = Inl InitFailed \<or>
          rest = [Call ChromeNew, LogInfo InitOk] \<and> k < 3 \<and> fst (init_driver b 3) = Inr (session b) \<or>
          rest = [Call ChromeNew] \<and> k < 3 \<and> fst (init_driver b 3) = Inl ChromeError))
    \<and> init_driver (env (fst item) (snd item)) 3 =
         (Inl InitFailed, failed_init_attempt 0 @ failed_init_attempt 1 @ failed_init_attempt 2)
    \<and> get_first_image_metadata (env (fst item) (snd item)) (snd item) =
         (Inl InitFailed, failed_init_attempt 0 @ failed_init_attempt 1 @ failed_init_attempt 2)
    \<and> process_image (env (fst item) (snd item)) (fst item) (snd item) =
         (Inl InitFailed, failed_init_attempt 0 @ failed_init_attempt 1 @ failed_init_attempt 2)
    \<and> (\<exists>e. process_images_concurrently env as_completed urls_data path max_workers fs = (Inl e, fs))
    \<and> (\<exists>e. fst (main env as_completed urls_data path max_workers fs) = Inl e)
    \<and> (if writable fs path
        then rows_in (snd (main env as_completed urls_data path max_workers fs)) path = [fieldnames]
        else snd (main env as_completed urls_data path max_workers fs) = fs)"
proof -
  let ?b = "env (fst item) (snd item)"
  let ?tr = "failed_init_attempt 0 @ failed_init_attempt 1 @ failed_init_attempt 2"
  have i: "init_driver ?b 3 = (Inl InitFailed, ?tr)"
    using fail by (rule all_fail_init)
  have g: "get_first_image_metadata ?b (snd item) = (Inl InitFailed, ?tr)"
    by (simp add: get_first_image_metadata_def i)
  have p: "process_image ?b (fst item) (snd item) = (Inl InitFailed, ?tr)"
    by (simp add: process_image_def g)
  have raised: "isl (future_of env item)"
    by (simp add: future_of_def p)
  have abort: "\<exists>e. process_images_concurrently env as_completed urls_data path max_workers fs'
                  = (Inl e, fs')" for fs'
    using perm item raised by (rule pic_aborts)
  have m1: "\<exists>e. fst (main env as_completed urls_data path max_workers fs) = Inl e"
  proof (cases "writable fs path")
    case True
    with abort [of "fs\<lparr>files := (files fs)(path \<mapsto> [fieldnames])\<rparr>"] show ?thesis
      by (auto simp: main_unfold)
  next
    case False
    then show ?thesis by (simp add: main_unfold)
  qed
  have m2: "if writable fs path
        then rows_in (snd (main env as_completed urls_data path max_workers fs)) path = [fieldnames]
        else snd (main env as_completed urls_data path max_workers fs) = fs"
  proof (cases "writable fs path")
    case True
    with abort [of "fs\<lparr>files := (files fs)(path \<mapsto> [fieldnames])\<rparr>"] show ?thesis
      by (auto simp: main_unfold rows_in_def)
  next
    case False
    then show ?thesis by (simp add: main_unfold)
  qed
  from init_driver_calls [of b 3] init_driver_events [of b] i g p abort [of fs] m1 m2
  show ?thesis by blast
qed

theorem init_driver_three_attempts_then_abort_witness:
  "(\<exists>e. process_images_concurrently second_never_starts rev two_items ''out.csv'' 5 empty_fs
          = (Inl e, empty_fs)) \<and>
   rows_in (snd (main second_never_starts rev two_items ''out.csv'' 5 empty_fs)) ''out.csv''
     = [fieldnames] \<and>
   fst (init_driver never_started 3) = Inl InitFailed"
  using init_driver_three_attempts_then_abort
    [where item = "(''b'', ''http://x/2.png'')" and urls_data = two_items
       and env = second_never_starts and as_completed = rev and path = "''out.csv''"
       and max_workers = 5 and fs = empty_fs and b = never_started]
  by (simp add: two_items_def second_never_starts_def never_started_def empty_fs_def)

section \<open>Futures, rows and input records\<close>

lemma process_image_row:
  assumes "fst (get_first_image_metadata b u) = Inr (Some md)"
  shows "fst (process_image b i u) =
           Inr (Some [(''id'', PyStr i), (''url'', PyStr u), (''position'', PyInt 1),
                      (''title'', dict_get md ''title'' PyNone),
                      (''source'', dict_get md ''source'' PyNone),
                      (''link'', dict_get md ''link'' PyNone)])"
proof -
  from assms have "extract_attempt (first_entry (session b) 0) = Some md"
    by (rule get_first_image_metadata_Some)
  then obtain title source link where
    md: "md = [(''position'', PyInt 1), (''title'', title), (''source'', source), (''link'', link)]"
    using extract_attempt_shape by blast
  show ?thesis
    unfolding process_image_fst assms by (simp add: md dict_get_def)
qed

lemma future_of_cases:
  "future_of env item =
     (case fetch_of env item of
        Inl e \<Rightarrow> Inl e
      | Inr None \<Rightarrow> Inr None
      | Inr (Some md) \<Rightarrow>
          Inr (Some [(''id'', PyStr (fst item)), (''url'', PyStr (snd item)),
                     (''position'', PyInt 1),
                     (''title'', dict_get md ''title'' PyNone),
                     (''source'', dict_get md ''source'' PyNone),
                     (''link'', dict_get md ''link'' PyNone)]))"
proof (cases "fetch_of env item")
  case (Inl e)
  then show ?thesis by (simp add: future_of_def fetch_of_def process_image_fst)
next
  case (Inr r)
  show ?thesis
  proof (cases r)
    case None
    with Inr show ?thesis by (simp add: future_of_def fetch_of_def process_image_fst)
  next
    case (Some md)
    with Inr have "fst (get_first_image_metadata (env (fst item) (snd item)) (snd item))
                     = Inr (Some md)"
      by (simp add: fetch_of_def)
    from process_image_row [OF this, of "fst item"] Inr Some show ?thesis
      by (simp add: future_of_def)
  qed
qed

lemma succeeded_iff: "succeeded (future_of env item) = returned_metadata (fetch_of env item)"
  by (simp add: future_of_cases succeeded_def returned_metadata_def truthy_def
      split: sum.split option.split)

lemma raised_iff: "isl (future_of env item) = isl (fetch_of env item)"
  by (simp add: future_of_cases split: sum.split option.split)

lemma succeeded_row:
  assumes "succeeded (future_of env item)"
  shows "future_of env item = Inr (Some (row_of (future_of env item)))"
    and "dict_get (row_of (future_of env item)) ''id'' dflt = PyStr (fst item)"
    and "dict_get (row_of (future_of env item)) ''url'' dflt = PyStr (snd item)"
    and "dict_get (row_of (future_of env item)) ''position'' dflt = PyInt 1"
  using assms
  by (auto simp: future_of_cases succeeded_def row_of_def truthy_def dict_get_def
      split: sum.splits option.splits)

lemma rows_set:
  assumes perm: "\<forall>xs. mset (ac xs) = mset xs"
  shows "set (map row_of (filter succeeded (ac (map (future_of env) urls)))) =
           {row_of (future_of env item) | item. item \<in> set urls \<and> succeeded (future_of env item)}"
  by (auto simp: perm_set [OF perm])

lemma rows_length:
  assumes perm: "\<forall>xs. mset (ac xs) = mset xs"
  shows "length (map row_of (filter succeeded (ac (map (future_of env) urls)))) =
           length (filter (\<lambda>item. returned_metadata (fetch_of env item)) urls)"
proof -
  have "mset (filter succeeded (ac (map (future_of env) urls)))
          = mset (filter succeeded (map (future_of env) urls))"
    using perm by simp
  then have "length (filter succeeded (ac (map (future_of env) urls)))
          = length (filter succeeded (map (future_of env) urls))"
    by (rule mset_eq_length)
  also have "\<dots> = length (filter (\<lambda>item. succeeded (future_of env item)) urls)"
    by (simp add: filter_map comp_def)
  finally show ?thesis by (simp add: succeeded_iff)
qed

lemma same_key_same_item:
  assumes "distinct (map fst xs)" "a \<in> set xs" "b \<in> set xs" "fst a = fst b"
  shows "a = b"
  using assms by (metis eq_key_imp_eq_value prod.collapse)

lemma absent_logged:
  assumes "fst (get_first_image_metadata b u) = Inr None"
  shows "process_image b i u = (Inr None, snd (get_first_image_metadata b u) @ [LogError (NoData i)])"
  using assms by (cases "get_first_image_metadata b u") (simp add: process_image_def truthy_def)

lemma pic_completes_iff:
  assumes perm: "\<forall>xs. mset (ac xs) = mset xs"
  shows "(\<exists>rows. fst (process_images_concurrently env ac urls path w fs) = Inr rows) \<longleftrightarrow>
           (0 < w \<and> writable fs path \<and> (\<forall>item\<in>set urls. \<not> isl (fetch_of env item)))"
proof
  assume "\<exists>rows. fst (process_images_concurrently env ac urls path w fs) = Inr rows"
  then obtain rows where r: "fst (process_images_concurrently env ac urls path w fs) = Inr rows" ..
  from pic_Inr(1,2,4) [OF perm r] show
    "0 < w \<and> writable fs path \<and> (\<forall>item\<in>set urls. \<not> isl (fetch_of env item))"
    by (simp add: raised_iff)
next
  assume a: "0 < w \<and> writable fs path \<and> (\<forall>item\<in>set urls. \<not> isl (fetch_of env item))"
  then have "\<forall>item\<in>set urls. \<not> isl (future_of env item)" by (simp add: raised_iff)
  with a pic_completes [OF perm] show
    "\<exists>rows. fst (process_images_concurrently env ac urls path w fs) = Inr rows"
    by blast
qed

lemma row_origin:
  assumes perm: "\<forall>xs. mset (ac xs) = mset xs"
    and run: "fst (process_images_concurrently env ac urls path w fs) = Inr rows"
    and row: "row \<in> set rows"
  shows "\<exists>item\<in>set urls. succeeded (future_of env item) \<and> row = row_of (future_of env item)"
proof -
  from pic_Inr(3) [OF perm run] row
  have "row \<in> set (map row_of (filter succeeded (ac (map (future_of env) urls))))" by simp
  then show ?thesis unfolding rows_set [OF perm] by blast
qed

lemma row_present:
  assumes perm: "\<forall>xs. mset (ac xs) = mset xs"
    and run: "fst (process_images_concurrently env ac urls path w fs) = Inr rows"
    and item: "item \<in> set urls" and ok: "succeeded (future_of env item)"
  shows "row_of (future_of env item) \<in> set rows"
proof -
  from item ok have "row_of (future_of env item) \<in>
      {row_of (future_of env item) | item. item \<in> set urls \<and> succeeded (future_of env item)}"
    by blast
  then show ?thesis
    unfolding rows_set [OF perm, symmetric] pic_Inr(3) [OF perm run, symmetric] .
qed

lemma no_row_for_absent:
  assumes perm: "\<forall>xs. mset (ac xs) = mset xs"
    and keys: "distinct (map fst urls)"
    and run: "fst (process_images_concurrently env ac urls path w fs) = Inr rows"
    and item: "item \<in> set urls" and absent: "fetch_of env item = Inr None"
    and row: "row \<in> set rows"
  shows "dict_get row ''id'' dflt \<noteq> PyStr (fst item)"
proof
  assume eq: "dict_get row ''id'' dflt = PyStr (fst item)"
  from row_origin [OF perm run row] obtain item' where
    i': "item' \<in> set urls" and ok: "succeeded (future_of env item')"
    and r: "row = row_of (future_of env item')" by blast
  from succeeded_row(2) [OF ok, of dflt] r eq have "fst item' = fst item" by simp
  with keys i' item have "item' = item" by (rule same_key_same_item)
  with ok absent show False
    by (simp add: succeeded_iff returned_metadata_def)
qed

section \<open>Evaluating the examples\<close>

lemmas example_defs =
  two_items_def match_first_only_def second_never_starts_def started_def started_late_def
  never_started_def match_page_def no_match_page_def no_href_page_def no_title_page_def
  empty_fs_def stale_fs_def crash_page_def nav_error_page_def crash_second_def
  nav_error_second_def

lemmas fetch_eval =
  fetch_of_def get_first_image_metadata_fst init_three fetch_steps_fst extract_attempt_def
  text_if_found_def get_attribute_href_def

lemma scenario_fetch_b: "fetch_of match_first_only (''b'', ''http://x/2.png'') = Inr None"
  by (simp add: fetch_eval example_defs)

lemma scenario_fetch_a: "fetch_of match_first_only (''a'', ''http://x/1.png'') =
   Inr (Some [(''position'', PyInt 1), (''title'', PyStr ''A cat''),
                (''source'', PyStr ''example.org''), (''link'', PyStr ''http://example.org/cat'')])"
  by (simp add: fetch_eval example_defs)

lemma scenario_rows: "fst (process_images_concurrently match_first_only rev two_items ''out.csv'' 5 empty_fs)
   = Inr [[(''id'', PyStr ''a''), (''url'', PyStr ''http://x/1.png''), (''position'', PyInt 1),
           (''title'', PyStr ''A cat''), (''source'', PyStr ''example.org''),
           (''link'', PyStr ''http://example.org/cat'')]]"
  by (simp add: pic_unfold future_of_cases scenario_fetch_b scenario_fetch_a two_items_def truthy_def append_rows_def
      dict_get_def empty_fs_def)

section \<open>How many rows a run writes\<close>

lemma row_item_unique:
  assumes keys: "distinct (map fst urls)"
    and a: "a \<in> set urls" "future_of env a = Inr (Some row)"
    and b: "b \<in> set urls" "future_of env b = Inr (Some row)"
  shows "a = b"
proof -
  from a(2) have "dict_get row ''id'' PyNone = PyStr (fst a)"
    by (auto simp: future_of_cases dict_get_def split: sum.splits option.splits)
  moreover from b(2) have "dict_get row ''id'' PyNone = PyStr (fst b)"
    by (auto simp: future_of_cases dict_get_def split: sum.splits option.splits)
  ultimately have "fst a = fst b" by simp
  with keys a(1) b(1) show ?thesis by (rule same_key_same_item)
qed

lemma returned_absent_iff: "returned_absent x \<longleftrightarrow> x = Inr None"
  by (simp add: returned_absent_def split: sum.split option.split)

lemma abort_fetch_a: "fetch_of second_never_starts (''a'', ''http://x/1.png'') =
   Inr (Some [(''position'', PyInt 1), (''title'', PyStr ''A cat''),
                (''source'', PyStr ''example.org''), (''link'', PyStr ''http://example.org/cat'')])"
  by (simp add: fetch_eval example_defs)

lemma abort_fetch_b: "fetch_of second_never_starts (''b'', ''http://x/2.png'') = Inl InitFailed"
  by (simp add: fetch_eval example_defs)

text \<open>
  C1, as the claim states it, fails on a run that ends with an exception. With the input
  of two items and a backend that never starts for the second, the fetch of the first item
  returns a record, so one item has a fetch that returned a record; the exception of the
  second ends the run before the append, and the run writes no row.
\<close>

theorem output_rows_count_counterexample:
  "length (filter (\<lambda>item. returned_metadata (fetch_of second_never_starts item)) two_items) = 1 \<and>
   rows_in (snd (process_images_concurrently second_never_starts (\<lambda>xs. xs) two_items
                   ''out.csv'' 5 empty_fs)) ''out.csv'' = [] \<and>
   length (rows_in (snd (process_images_concurrently second_never_starts (\<lambda>xs. xs) two_items
                           ''out.csv'' 5 empty_fs)) ''out.csv'')
     \<noteq> length (filter (\<lambda>item. returned_metadata (fetch_of second_never_starts item)) two_items)"
  by (simp add: pic_unfold future_of_cases abort_fetch_a abort_fetch_b two_items_def truthy_def
      returned_metadata_def rows_in_def empty_fs_def)

text \<open>
  C1, amended. A run that ends with an exception leaves the file system as it was; a run
  that returns writes its rows after the records that the file held, and they are at most
  as many as the input has items. The run returns exactly when the pool size is at least
  1, the file can be opened and no fetch raises. Then the number of rows is the number of
  items whose fetch returned a record, every row is the row of exactly one item of the
  input, and no row carries the identifier of an item whose fetch returned absent.
\<close>

theorem output_rows_count:
  assumes perm: "\<forall>xs. mset (as_completed xs) = mset xs"
    and keys: "distinct (map fst urls_data)"
  shows "(case fst (process_images_concurrently env as_completed urls_data path max_workers fs) of
            Inl e \<Rightarrow>
              snd (process_images_concurrently env as_completed urls_data path max_workers fs) = fs
          | Inr rows \<Rightarrow>
              length rows \<le> length urls_data \<and>
              rows_in (snd (process_images_concurrently env as_completed urls_data path
                              max_workers fs)) path
                = rows_in fs path @ map csv_row rows)
    \<and> ((\<exists>rows. fst (process_images_concurrently env as_completed urls_data path max_workers fs)
                 = Inr rows) \<longleftrightarrow>
         (0 < max_workers \<and> writable fs path \<and>
          (\<forall>item\<in>set urls_data. \<not> isl (fetch_of env item))))
    \<and> (\<forall>rows. fst (process_images_concurrently env as_completed urls_data path max_workers fs)
                 = Inr rows \<longrightarrow>
          length rows
            = length (filter (\<lambda>item. returned_metadata (fetch_of env item)) urls_data) \<and>
          (\<forall>row\<in>set rows. \<exists>!item. item \<in> set urls_data \<and> future_of env item = Inr (Some row)) \<and>
          (\<forall>item\<in>set urls_data. returned_absent (fetch_of env item) \<longrightarrow>
             (\<forall>row\<in>set rows. dict_get row ''id'' PyNone \<noteq> PyStr (fst item))))"
proof -
  let ?run = "process_images_concurrently env as_completed urls_data path max_workers fs"
  have count: "length rows
        = length (filter (\<lambda>item. returned_metadata (fetch_of env item)) urls_data)"
    if run: "fst ?run = Inr rows" for rows
    using pic_Inr(3) [OF perm run] rows_length [OF perm, of env urls_data] by simp
  have a: "case fst ?run of
            Inl e \<Rightarrow> snd ?run = fs
          | Inr rows \<Rightarrow> length rows \<le> length urls_data \<and>
              rows_in (snd ?run) path = rows_in fs path @ map csv_row rows"
  proof (cases "fst ?run")
    case (Inl e)
    then show ?thesis by (simp add: pic_Inl)
  next
    case (Inr rows)
    from count [OF Inr] have "length rows \<le> length urls_data" by simp
    moreover from pic_Inr(5) [OF perm Inr]
    have "rows_in (snd ?run) path = rows_in fs path @ map csv_row rows"
      by (simp add: rows_in_def)
    ultimately show ?thesis using Inr by simp
  qed
  have c: "(\<forall>row\<in>set rows. \<exists>!item. item \<in> set urls_data \<and> future_of env item = Inr (Some row)) \<and>
          (\<forall>item\<in>set urls_data. returned_absent (fetch_of env item) \<longrightarrow>
             (\<forall>row\<in>set rows. dict_get row ''id'' PyNone \<noteq> PyStr (fst item)))"
    if run: "fst ?run = Inr rows" for rows
  proof (intro conjI ballI impI)
    fix row assume "row \<in> set rows"
    from row_origin [OF perm run this] obtain item where
      i: "item \<in> set urls_data" and ok: "succeeded (future_of env item)"
      and r: "row = row_of (future_of env item)" by blast
    from succeeded_row(1) [OF ok] r have "future_of env item = Inr (Some row)" by simp
    with i show "\<exists>!item. item \<in> set urls_data \<and> future_of env item = Inr (Some row)"
      using row_item_unique [OF keys] by blast
  next
    fix item row
    assume "item \<in> set urls_data" "returned_absent (fetch_of env item)" "row \<in> set rows"
    then show "dict_get row ''id'' PyNone \<noteq> PyStr (fst item)"
      using no_row_for_absent [OF perm keys run] by (simp add: returned_absent_iff)
  qed
  from a pic_completes_iff [OF perm] count c show ?thesis by blast
qed

theorem output_rows_count_witness:
  "\<exists>rows. fst (process_images_concurrently match_first_only rev two_items ''out.csv'' 5 empty_fs)
            = Inr rows \<and>
     length rows = 1 \<and>
     length (filter (\<lambda>item. returned_metadata (fetch_of match_first_only item)) two_items) = 1 \<and>
     length rows \<le> length two_items"
proof -
  have perm: "\<forall>xs. mset (rev xs) = mset (xs :: (exn + pydict option) list)" by simp
  have keys: "distinct (map fst two_items)" by (simp add: two_items_def)
  have noraise: "\<forall>item\<in>set two_items. \<not> isl (fetch_of match_first_only item)"
    by (simp add: two_items_def scenario_fetch_a scenario_fetch_b)
  have n: "length (filter (\<lambda>item. returned_metadata (fetch_of match_first_only item)) two_items) = 1"
    by (simp add: two_items_def scenario_fetch_a scenario_fetch_b returned_metadata_def)
  note T = output_rows_count [OF perm keys, where env = match_first_only
      and path = "''out.csv''" and max_workers = 5 and fs = empty_fs]
  from T noraise obtain rows where
    r: "fst (process_images_concurrently match_first_only rev two_items ''out.csv'' 5 empty_fs)
          = Inr rows"
    by (auto simp: empty_fs_def)
  from T r n have "length rows = 1" by simp
  with r n show ?thesis by (simp add: two_items_def)
qed

section \<open>The rows keep the identity of their items\<close>

lemma str_int_1: "str_int 1 = ''1''"
  by (simp add: str_int_def str_nat.simps)

lemma succeeded_future:
  assumes "succeeded (future_of env item)"
  shows "\<exists>md. future_of env item =
           Inr (Some [(''id'', PyStr (fst item)), (''url'', PyStr (snd item)),
                      (''position'', PyInt 1),
                      (''title'', dict_get md ''title'' PyNone),
                      (''source'', dict_get md ''source'' PyNone),
                      (''link'', dict_get md ''link'' PyNone)])"
proof -
  from assms have "returned_metadata (fetch_of env item)" by (simp add: succeeded_iff)
  then obtain md where "fetch_of env item = Inr (Some md)"
    by (auto simp: returned_metadata_def split: sum.splits option.splits)
  then have "future_of env item =
           Inr (Some [(''id'', PyStr (fst item)), (''url'', PyStr (snd item)),
                      (''position'', PyInt 1),
                      (''title'', dict_get md ''title'' PyNone),
                      (''source'', dict_get md ''source'' PyNone),
                      (''link'', dict_get md ''link'' PyNone)])"
    by (simp add: future_of_cases)
  then show ?thesis by (intro exI [of _ md])
qed

lemma csv_row_of_future:
  assumes "succeeded (future_of env item)"
  shows "\<exists>title source link.
           csv_row (row_of (future_of env item)) =
             [fst item, snd item, ''1'', csv_field title, csv_field source, csv_field link]"
proof -
  from succeeded_future [OF assms] obtain md where
    f: "future_of env item =
           Inr (Some [(''id'', PyStr (fst item)), (''url'', PyStr (snd item)),
                      (''position'', PyInt 1),
                      (''title'', dict_get md ''title'' PyNone),
                      (''source'', dict_get md ''source'' PyNone),
                      (''link'', dict_get md ''link'' PyNone)])" ..
  have "csv_row (row_of (future_of env item)) =
          [fst item, snd item, ''1'', csv_field (dict_get md ''title'' PyNone),
           csv_field (dict_get md ''source'' PyNone), csv_field (dict_get md ''link'' PyNone)]"
    unfolding f row_of_def csv_row_def fieldnames_def
    by (simp add: dict_get_def csv_field_def str_int_1)
  then show ?thesis by blast
qed


text \<open>
  C6. Every row that a run returns is the row of an item of the input: the future of that
  item holds it, its \<^verbatim>\<open>id\<close> and \<^verbatim>\<open>url\<close> are the identifier and the URL of the item,
  and so are the first two fields of its record in the file. This holds for every pool
  size and every order in which the futures complete.
\<close>

theorem row_identity_preserved:
  assumes perm: "\<forall>xs. mset (as_completed xs) = mset xs"
    and run: "fst (process_images_concurrently env as_completed urls_data path max_workers fs)
                = Inr rows"
    and row: "row \<in> set rows"
  shows "\<exists>item\<in>set urls_data.
           future_of env item = Inr (Some row) \<and>
           map_of row ''id'' = Some (PyStr (fst item)) \<and>
           map_of row ''url'' = Some (PyStr (snd item)) \<and>
           take 2 (csv_row row) = [fst item, snd item]"
proof -
  from row_origin [OF perm run row] obtain item where
    i: "item \<in> set urls_data" and ok: "succeeded (future_of env item)"
    and r: "row = row_of (future_of env item)" by blast
  have f: "future_of env item = Inr (Some row)"
    unfolding r by (rule succeeded_row(1) [OF ok])
  from succeeded_future [OF ok] obtain md where
    "future_of env item =
           Inr (Some [(''id'', PyStr (fst item)), (''url'', PyStr (snd item)),
                      (''position'', PyInt 1),
                      (''title'', dict_get md ''title'' PyNone),
                      (''source'', dict_get md ''source'' PyNone),
                      (''link'', dict_get md ''link'' PyNone)])" by (elim exE)
  with f have row_eq: "row = [(''id'', PyStr (fst item)), (''url'', PyStr (snd item)),
                      (''position'', PyInt 1),
                      (''title'', dict_get md ''title'' PyNone),
                      (''source'', dict_get md ''source'' PyNone),
                      (''link'', dict_get md ''link'' PyNone)]" by simp
  have k1: "map_of row ''id'' = Some (PyStr (fst item))"
    and k2: "map_of row ''url'' = Some (PyStr (snd item))"
    unfolding row_eq by simp_all
  from csv_row_of_future [OF ok] obtain title source link where
    "csv_row (row_of (future_of env item)) =
       [fst item, snd item, ''1'', csv_field title, csv_field source, csv_field link]"
    by (elim exE)
  then have k3: "take 2 (csv_row row) = [fst item, snd item]" unfolding r by simp
  from f k1 k2 k3 have "future_of env item = Inr (Some row) \<and>
           map_of row ''id'' = Some (PyStr (fst item)) \<and>
           map_of row ''url'' = Some (PyStr (snd item)) \<and>
           take 2 (csv_row row) = [fst item, snd item]" by simp
  with i show ?thesis by (rule bexI [rotated])
qed

theorem row_identity_preserved_witness:
  "fst (process_images_concurrently match_first_only rev two_items ''out.csv'' 50 empty_fs)
     = Inr [[(''id'', PyStr ''a''), (''url'', PyStr ''http://x/1.png''), (''position'', PyInt 1),
             (''title'', PyStr ''A cat''), (''source'', PyStr ''example.org''),
             (''link'', PyStr ''http://example.org/cat'')]] \<and>
   (\<exists>item\<in>set two_items.
      future_of match_first_only item =
        Inr (Some [(''id'', PyStr ''a''), (''url'', PyStr ''http://x/1.png''),
                   (''position'', PyInt 1), (''title'', PyStr ''A cat''),
                   (''source'', PyStr ''example.org''),
                   (''link'', PyStr ''http://example.org/cat'')]) \<and>
      map_of [(''id'', PyStr ''a''), (''url'', PyStr ''http://x/1.png''),
              (''position'', PyInt 1), (''title'', PyStr ''A cat''),
              (''source'', PyStr ''example.org''),
              (''link'', PyStr ''http://example.org/cat'')] ''id'' = Some (PyStr (fst item)) \<and>
      map_of [(''id'', PyStr ''a''), (''url'', PyStr ''http://x/1.png''),
              (''position'', PyInt 1), (''title'', PyStr ''A cat''),
              (''source'', PyStr ''example.org''),
              (''link'', PyStr ''http://example.org/cat'')] ''url'' = Some (PyStr (snd item)) \<and>
      take 2 (csv_row [(''id'', PyStr ''a''), (''url'', PyStr ''http://x/1.png''),
              (''position'', PyInt 1), (''title'', PyStr ''A cat''),
              (''source'', PyStr ''example.org''),
              (''link'', PyStr ''http://example.org/cat'')]) = [fst item, snd item])"
proof -
  have perm: "\<forall>xs. mset (rev xs) = mset (xs :: (exn + pydict option) list)" by simp
  have run: "fst (process_images_concurrently match_first_only rev two_items ''out.csv'' 50 empty_fs)
     = Inr [[(''id'', PyStr ''a''), (''url'', PyStr ''http://x/1.png''), (''position'', PyInt 1),
             (''title'', PyStr ''A cat''), (''source'', PyStr ''example.org''),
             (''link'', PyStr ''http://example.org/cat'')]]"
    by (simp add: pic_unfold future_of_cases scenario_fetch_b scenario_fetch_a two_items_def
        truthy_def append_rows_def dict_get_def empty_fs_def)
  show ?thesis
    by (rule conjI [OF run]) (rule row_identity_preserved [OF perm run], simp)
qed

section \<open>The pool size and the completion order\<close>

lemma pic_schedule_independent:
  assumes perm1: "\<forall>xs. mset (ac1 xs) = mset xs" and perm2: "\<forall>xs. mset (ac2 xs) = mset xs"
    and w1: "0 < w1" and w2: "0 < w2"
  shows "isl (fst (process_images_concurrently env ac1 urls path w1 fs)) =
         isl (fst (process_images_concurrently env ac2 urls path w2 fs))"
    and "\<And>rows1 rows2.
           fst (process_images_concurrently env ac1 urls path w1 fs) = Inr rows1 \<Longrightarrow>
           fst (process_images_concurrently env ac2 urls path w2 fs) = Inr rows2 \<Longrightarrow>
           mset rows1 = mset rows2"
    and "mset (rows_in (snd (process_images_concurrently env ac1 urls path w1 fs)) path) =
         mset (rows_in (snd (process_images_concurrently env ac2 urls path w2 fs)) path)"
proof -
  let ?r1 = "process_images_concurrently env ac1 urls path w1 fs"
  let ?r2 = "process_images_concurrently env ac2 urls path w2 fs"
  have c: "(\<exists>rows. fst ?r1 = Inr rows) \<longleftrightarrow> (\<exists>rows. fst ?r2 = Inr rows)"
    using w1 w2 by (simp add: pic_completes_iff [OF perm1] pic_completes_iff [OF perm2])
  then show i: "isl (fst ?r1) = isl (fst ?r2)"
    by (cases "fst ?r1"; cases "fst ?r2") auto
  show m: "mset rows1 = mset rows2" if "fst ?r1 = Inr rows1" "fst ?r2 = Inr rows2" for rows1 rows2
    using pic_Inr(3) [OF perm1 that(1)] pic_Inr(3) [OF perm2 that(2)]
      rows_mset [OF perm1] rows_mset [OF perm2] by simp
  show "mset (rows_in (snd ?r1) path) = mset (rows_in (snd ?r2) path)"
  proof (cases "fst ?r1")
    case (Inl e)
    with i obtain e' where "fst ?r2 = Inl e'" by (cases "fst ?r2") auto
    with Inl show ?thesis by (simp add: pic_Inl)
  next
    case (Inr rows1)
    with i obtain rows2 where r2: "fst ?r2 = Inr rows2" by (cases "fst ?r2") auto
    from m [OF Inr r2] have "mset (map csv_row rows1) = mset (map csv_row rows2)" by simp
    with pic_Inr(5) [OF perm1 Inr] pic_Inr(5) [OF perm2 r2] show ?thesis
      by (simp add: rows_in_def)
  qed
qed

text \<open>
  C8. With a collaborator whose answers are a function of the URL, two runs on the same
  input and the same file system, with any two pool sizes of at least 1 and any two
  completion orders, end with the same records in the file, the order apart (equal as
  multisets, so equal as sets); both end with an exception or both return, and the rows
  they return are the same, the order apart.
\<close>

theorem pool_size_invariance:
  assumes perm1: "\<forall>xs. mset (as_completed1 xs) = mset xs"
    and perm2: "\<forall>xs. mset (as_completed2 xs) = mset xs"
    and w1: "0 < workers1" and w2: "0 < workers2"
  shows "mset (rows_in (snd (main (\<lambda>image_id. stub) as_completed1 urls_data path workers1 fs)) path)
       = mset (rows_in (snd (main (\<lambda>image_id. stub) as_completed2 urls_data path workers2 fs)) path)
    \<and> set (rows_in (snd (main (\<lambda>image_id. stub) as_completed1 urls_data path workers1 fs)) path)
       = set (rows_in (snd (main (\<lambda>image_id. stub) as_completed2 urls_data path workers2 fs)) path)
    \<and> isl (fst (main (\<lambda>image_id. stub) as_completed1 urls_data path workers1 fs))
       = isl (fst (main (\<lambda>image_id. stub) as_completed2 urls_data path workers2 fs))
    \<and> (\<forall>rows1 rows2.
          fst (main (\<lambda>image_id. stub) as_completed1 urls_data path workers1 fs) = Inr rows1 \<and>
          fst (main (\<lambda>image_id. stub) as_completed2 urls_data path workers2 fs) = Inr rows2 \<longrightarrow>
          mset rows1 = mset rows2 \<and> set rows1 = set rows2)"
proof (cases "writable fs path")
  case False
  then show ?thesis by (simp add: main_unfold)
next
  case True
  let ?fs1 = "fs\<lparr>files := (files fs)(path \<mapsto> [fieldnames])\<rparr>"
  let ?p1 = "process_images_concurrently (\<lambda>image_id. stub) as_completed1 urls_data path workers1 ?fs1"
  let ?p2 = "process_images_concurrently (\<lambda>image_id. stub) as_completed2 urls_data path workers2 ?fs1"
  have m1: "main (\<lambda>image_id. stub) as_completed1 urls_data path workers1 fs = ?p1"
    and m2: "main (\<lambda>image_id. stub) as_completed2 urls_data path workers2 fs = ?p2"
    using True by (simp_all add: main_unfold)
  have i: "isl (fst ?p1) = isl (fst ?p2)"
    by (rule pic_schedule_independent(1) [OF perm1 perm2 w1 w2])
  have f: "mset (rows_in (snd ?p1) path) = mset (rows_in (snd ?p2) path)"
    by (rule pic_schedule_independent(3) [OF perm1 perm2 w1 w2])
  from f have s: "set (rows_in (snd ?p1) path) = set (rows_in (snd ?p2) path)"
    by (rule mset_eq_setD)
  have r: "\<forall>rows1 rows2. fst ?p1 = Inr rows1 \<and> fst ?p2 = Inr rows2 \<longrightarrow>
             mset rows1 = mset rows2 \<and> set rows1 = set rows2"
  proof (intro allI impI)
    fix rows1 rows2
    assume a: "fst ?p1 = Inr rows1 \<and> fst ?p2 = Inr rows2"
    then have a1: "fst ?p1 = Inr rows1" and a2: "fst ?p2 = Inr rows2" by simp_all
    have e: "mset rows1 = mset rows2"
      by (rule pic_schedule_independent(2) [OF perm1 perm2 w1 w2 a1 a2])
    from e have e': "set rows1 = set rows2" by (rule mset_eq_setD)
    from e e' show "mset rows1 = mset rows2 \<and> set rows1 = set rows2" by (rule conjI)
  qed
  show ?thesis unfolding m1 m2 by (rule conjI [OF f conjI [OF s conjI [OF i r]]])
qed

theorem pool_size_invariance_witness:
  "mset (rows_in (snd (main (\<lambda>image_id. match_first_only []) rev two_items ''out.csv'' 1 empty_fs))
           ''out.csv'')
   = mset (rows_in (snd (main (\<lambda>image_id. match_first_only []) (\<lambda>xs. xs) two_items ''out.csv'' 50
                           empty_fs)) ''out.csv'')"
proof -
  have perm1: "\<forall>xs. mset (rev xs) = mset (xs :: (exn + pydict option) list)" by simp
  have perm2: "\<forall>xs. mset ((\<lambda>xs. xs) xs) = mset (xs :: (exn + pydict option) list)" by simp
  have w1: "0 < (1::int)" and w2: "0 < (50::int)" by simp_all
  note T = pool_size_invariance [OF perm1 perm2 w1 w2, where stub = "match_first_only []"
      and urls_data = two_items and path = "''out.csv''" and fs = empty_fs]
  from T show ?thesis by (rule conjunct1)
qed

section \<open>The header of the output file\<close>


lemma scenario_file:
  "rows_in (snd (main match_first_only rev two_items ''out.csv'' 5 stale_fs)) ''out.csv'' =
     [fieldnames,
      [''a'', ''http://x/1.png'', ''1'', ''A cat'', ''example.org'', ''http://example.org/cat'']]"
  by (simp add: main_unfold pic_unfold future_of_cases scenario_fetch_b scenario_fetch_a
      two_items_def truthy_def append_rows_def dict_get_def stale_fs_def rows_in_def csv_row_def
      csv_field_def str_int_1 fieldnames_def)



section \<open>Missing metadata\<close>

lemma no_href_fetch:
  "fetch_of (\<lambda>image_id image_url. started no_href_page) (''a'', ''http://x/1.png'') =
     Inr (Some [(''position'', PyInt 1), (''title'', PyStr ''A cat''),
                (''source'', PyStr ''example.org''), (''link'', PyNone)])"
  by (simp add: fetch_eval example_defs)

text \<open>
  C2. The claim asks for the literal \<^verbatim>\<open>N/A\<close> where a metadata field is missing. On a
  first result whose anchor has no \<^verbatim>\<open>href\<close>, the record binds \<^verbatim>\<open>link\<close> to
  \<^verbatim>\<open>None\<close>; the key is present, so \<^verbatim>\<open>.get('link', 'N/A')\<close> returns \<^verbatim>\<open>None\<close>, the row
  carries \<^verbatim>\<open>None\<close>, and the file holds the empty field.
\<close>

theorem missing_link_written_as_empty_field:
  "fst (process_image (started no_href_page) ''a'' ''http://x/1.png'') =
     Inr (Some [(''id'', PyStr ''a''), (''url'', PyStr ''http://x/1.png''),
                (''position'', PyInt 1), (''title'', PyStr ''A cat''),
                (''source'', PyStr ''example.org''), (''link'', PyNone)]) \<and>
   rows_in (snd (main (\<lambda>image_id image_url. started no_href_page) (\<lambda>xs. xs)
                   [(''a'', ''http://x/1.png'')] ''out.csv'' 5 empty_fs)) ''out.csv'' =
     [[''id'', ''url'', ''position'', ''title'', ''source'', ''link''],
      [''a'', ''http://x/1.png'', ''1'', ''A cat'', ''example.org'', '''']]"
proof -
  have f: "future_of (\<lambda>image_id image_url. started no_href_page) (''a'', ''http://x/1.png'') =
     Inr (Some [(''id'', PyStr ''a''), (''url'', PyStr ''http://x/1.png''),
                (''position'', PyInt 1), (''title'', PyStr ''A cat''),
                (''source'', PyStr ''example.org''), (''link'', PyNone)])"
    by (simp add: future_of_cases no_href_fetch dict_get_def)
  then have a: "fst (process_image (started no_href_page) ''a'' ''http://x/1.png'') =
     Inr (Some [(''id'', PyStr ''a''), (''url'', PyStr ''http://x/1.png''),
                (''position'', PyInt 1), (''title'', PyStr ''A cat''),
                (''source'', PyStr ''example.org''), (''link'', PyNone)])"
    by (simp add: future_of_def)
  have b: "rows_in (snd (main (\<lambda>image_id image_url. started no_href_page) (\<lambda>xs. xs)
                   [(''a'', ''http://x/1.png'')] ''out.csv'' 5 empty_fs)) ''out.csv'' =
     [[''id'', ''url'', ''position'', ''title'', ''source'', ''link''],
      [''a'', ''http://x/1.png'', ''1'', ''A cat'', ''example.org'', '''']]"
    by (simp add: main_unfold pic_unfold f truthy_def append_rows_def dict_get_def empty_fs_def
        rows_in_def csv_row_def csv_field_def str_int_1 fieldnames_def)
  from a b show ?thesis by (rule conjI)
qed

text \<open>
  C5. The claim lets the title element be absent without failing the item. On a first
  result without the title element, \<^verbatim>\<open>find_element\<close> raises; the handler of
  \<^verbatim>\<open>extract_first_image_metadata\<close> catches the exception, the only attempt is spent, and
  the extraction, the fetch and the task all return \<^verbatim>\<open>None\<close>.
\<close>

theorem missing_title_element_fails_the_item:
  "extract_first_image_metadata no_title_page 1 =
     (None, [Call WaitEntry, LogError (ExtractFailed 1 1), Sleep 2]) \<and>
   fst (get_first_image_metadata (started no_title_page) ''http://x/1.png'') = Inr None \<and>
   fst (process_image (started no_title_page) ''a'' ''http://x/1.png'') = Inr None"
proof -
  have a: "extract_first_image_metadata no_title_page 1 =
     (None, [Call WaitEntry, LogError (ExtractFailed 1 1), Sleep 2])"
    unfolding extract_once
    by (simp add: extract_attempt_def text_if_found_def no_title_page_def match_page_def)
  have b: "fst (get_first_image_metadata (started no_title_page) ''http://x/1.png'') = Inr None"
    by (simp add: get_first_image_metadata_fst init_three fetch_steps_fst extract_attempt_def
        text_if_found_def example_defs)
  then have c: "fst (process_image (started no_title_page) ''a'' ''http://x/1.png'') = Inr None"
    by (simp add: process_image_fst)
  from a b c show ?thesis by simp
qed

section \<open>A failure at the no-match check\<close>

lemma crash_fetch_a:
  "fetch_of crash_second (''a'', ''http://x/1.png'') =
     Inr (Some [(''position'', PyInt 1), (''title'', PyStr ''A cat''),
                (''source'', PyStr ''example.org''), (''link'', PyStr ''http://example.org/cat'')])"
  by (simp add: fetch_eval example_defs)

lemma crash_fetch_b: "fetch_of crash_second (''b'', ''http://x/2.png'') = Inl WaitError"
  by (simp add: fetch_eval example_defs)

lemma nav_error_fetch_a:
  "fetch_of nav_error_second (''a'', ''http://x/1.png'') =
     Inr (Some [(''position'', PyInt 1), (''title'', PyStr ''A cat''),
                (''source'', PyStr ''example.org''), (''link'', PyStr ''http://example.org/cat'')])"
  by (simp add: fetch_eval example_defs)

lemma nav_error_fetch_b: "fetch_of nav_error_second (''b'', ''http://x/2.png'') = Inr None"
  by (simp add: fetch_eval example_defs)

text \<open>
  C4. The claim has every fetch that fails after it got its session return absent, with
  the run going on to write the rows of the other items. \<^verbatim>\<open>check_no_image_error\<close>
  catches \<^verbatim>\<open>TimeoutException\<close> only, where \<^verbatim>\<open>navigate_to_lens\<close>,
  \<^verbatim>\<open>wait_and_click_find_image_source\<close> and \<^verbatim>\<open>extract_first_image_metadata\<close> catch
  every exception. So when the wait for the no-match message raises an exception that is
  not a timeout, the fetch raises it (after \<^verbatim>\<open>driver.quit()\<close>), \<^verbatim>\<open>process_image\<close>
  raises it, and the run over the two items ends with that exception and a file that
  holds the header only, although the fetch of the first item returned a record. On the
  same input, an exception that is not a timeout at navigation is caught: the task logs
  the item and returns absent, and the file holds the row of the first item.
\<close>

theorem no_match_wait_exception_aborts_the_run:
  "get_first_image_metadata (started crash_page) ''http://x/2.png'' =
     (Inl WaitError,
      [Call ChromeNew, LogInfo InitOk, Call (SetPageLoadTimeout 60),
       Call (Get (lens_url ''http://x/2.png'')), LogInfo (Navigated (lens_url ''http://x/2.png'')),
       Call WaitNoImage, Call Quit]) \<and>
   fst (process_image (started crash_page) ''b'' ''http://x/2.png'') = Inl WaitError \<and>
   returned_metadata (fetch_of crash_second (''a'', ''http://x/1.png'')) \<and>
   fst (main crash_second (\<lambda>xs. xs) two_items ''out.csv'' 5 empty_fs) = Inl WaitError \<and>
   rows_in (snd (main crash_second (\<lambda>xs. xs) two_items ''out.csv'' 5 empty_fs)) ''out.csv'' =
     [[''id'', ''url'', ''position'', ''title'', ''source'', ''link'']] \<and>
   process_image (started nav_error_page) ''b'' ''http://x/2.png'' =
     (Inr None,
      [Call ChromeNew, LogInfo InitOk, Call (SetPageLoadTimeout 60),
       Call (Get (lens_url ''http://x/2.png'')),
       LogError (NavError (lens_url ''http://x/2.png'') 1 1), Sleep 2, Call Quit,
       LogError (NoData ''b'')]) \<and>
   rows_in (snd (main nav_error_second (\<lambda>xs. xs) two_items ''out.csv'' 5 empty_fs)) ''out.csv'' =
     [[''id'', ''url'', ''position'', ''title'', ''source'', ''link''],
      [''a'', ''http://x/1.png'', ''1'', ''A cat'', ''example.org'', ''http://example.org/cat'']]"
proof -
  have i: "init_driver (started d) 3 = (Inr d, [Call ChromeNew, LogInfo InitOk])" for d
    by (simp add: init_three started_def)
  have g: "get_first_image_metadata (started crash_page) ''http://x/2.png'' =
     (Inl WaitError,
      [Call ChromeNew, LogInfo InitOk, Call (SetPageLoadTimeout 60),
       Call (Get (lens_url ''http://x/2.png'')), LogInfo (Navigated (lens_url ''http://x/2.png'')),
       Call WaitNoImage, Call Quit])"
    unfolding get_first_image_metadata_def i fetch_steps_def navigate_once
      check_no_image_error_def
    by (simp add: crash_page_def match_page_def)
  have p: "fst (process_image (started crash_page) ''b'' ''http://x/2.png'') = Inl WaitError"
    by (simp add: process_image_def g)
  have a: "returned_metadata (fetch_of crash_second (''a'', ''http://x/1.png''))"
    by (simp add: crash_fetch_a returned_metadata_def)
  have m1: "fst (main crash_second (\<lambda>xs. xs) two_items ''out.csv'' 5 empty_fs) = Inl WaitError"
    by (simp add: main_unfold pic_unfold future_of_cases crash_fetch_a crash_fetch_b
        two_items_def truthy_def empty_fs_def)
  have m2: "rows_in (snd (main crash_second (\<lambda>xs. xs) two_items ''out.csv'' 5 empty_fs))
              ''out.csv'' = [[''id'', ''url'', ''position'', ''title'', ''source'', ''link'']]"
    by (simp add: main_unfold pic_unfold future_of_cases crash_fetch_a crash_fetch_b
        two_items_def truthy_def empty_fs_def rows_in_def fieldnames_def)
  have n: "get_first_image_metadata (started nav_error_page) ''http://x/2.png'' =
     (Inr None,
      [Call ChromeNew, LogInfo InitOk, Call (SetPageLoadTimeout 60),
       Call (Get (lens_url ''http://x/2.png'')),
       LogError (NavError (lens_url ''http://x/2.png'') 1 1), Sleep 2, Call Quit])"
    unfolding get_first_image_metadata_def i fetch_steps_def navigate_once
    by (simp add: nav_error_page_def match_page_def)
  have q: "process_image (started nav_error_page) ''b'' ''http://x/2.png'' =
     (Inr None,
      [Call ChromeNew, LogInfo InitOk, Call (SetPageLoadTimeout 60),
       Call (Get (lens_url ''http://x/2.png'')),
       LogError (NavError (lens_url ''http://x/2.png'') 1 1), Sleep 2, Call Quit,
       LogError (NoData ''b'')])"
    by (simp add: process_image_def n truthy_def)
  have m3: "rows_in (snd (main nav_error_second (\<lambda>xs. xs) two_items ''out.csv'' 5 empty_fs))
              ''out.csv'' =
     [[''id'', ''url'', ''position'', ''title'', ''source'', ''link''],
      [''a'', ''http://x/1.png'', ''1'', ''A cat'', ''example.org'', ''http://example.org/cat'']]"
    by (simp add: main_unfold pic_unfold future_of_cases nav_error_fetch_a nav_error_fetch_b
        two_items_def truthy_def append_rows_def dict_get_def empty_fs_def rows_in_def
        csv_row_def csv_field_def str_int_1 fieldnames_def)
  show ?thesis
    by (rule conjI [OF g conjI [OF p conjI [OF a conjI [OF m1 conjI [OF m2 conjI [OF q m3]]]]]])
qed

end
